theory Spec2Isabelle
  imports Main
begin

section \<open>Exceptions shared by the three tools\<close>

text \<open>
  The three scripts share no code. What they have in common is Python itself: a remote call
  either returns or raises, and an exception that no \<^verbatim>\<open>except\<close> clause catches ends the run.
  \<open>KalturaException\<close> carries the platform's error code, \<open>RequestException\<close> is the one of
  the \<^verbatim>\<open>requests\<close> library, \<open>OtherException\<close> stands for every other subclass of
  \<^verbatim>\<open>Exception\<close>.
\<close>

datatype exn =
    KalturaException string
  | RequestException string
  | IndexError
  | OverflowError
  | ValueError
  | TypeError
  | AttributeError
  | KeyError
  | OtherException string

section \<open>Category Republish Workflow (unpublish-republish-entry.py)\<close>

subsection \<open>The remote platform\<close>

text \<open>
  A category-entry association as the list call returns it: only the \<^verbatim>\<open>value\<close> attribute of
  its status is read (\<open>None\<close> when the status object has no such attribute). A list response
  has \<^verbatim>\<open>totalCount\<close> (\<open>None\<close> when the attribute is missing, which \<^verbatim>\<open>getattr(resp, "totalCount", 0)\<close>
  reads as 0) and \<^verbatim>\<open>objects\<close>.
\<close>

record category_entry =
  status_value :: "int option"

record ce_list_response =
  totalCount :: "int option"
  objects :: "category_entry list"

text \<open>
  The platform is external: it is a state \<open>'p\<close> and three calls on it, each returning a
  result or an exception together with the platform's next state. The arguments are the
  entry id and the category id.
\<close>

record 'p platform =
  categoryEntry_list :: "'p \<Rightarrow> string \<Rightarrow> string \<Rightarrow> (exn + ce_list_response) \<times> 'p"
  categoryEntry_delete :: "'p \<Rightarrow> string \<Rightarrow> string \<Rightarrow> (exn + unit) \<times> 'p"
  categoryEntry_add :: "'p \<Rightarrow> string \<Rightarrow> string \<Rightarrow> (exn + unit) \<times> 'p"

text \<open>What a run does that can be observed: the remote calls it issues and the lines it prints.\<close>

datatype rp_event =
    CallList string string
  | CallDelete string string
  | CallAdd string string
  | PrintSeparator
  | PrintProcessing string string
  | PrintRemoving
  | PrintNotActive string string
  | PrintCouldNotRemove string
  | PrintRemovalFailed
  | PrintConfirmedRemoved string string
  | PrintFailedConfirmRemoval
  | PrintAdding
  | PrintCouldNotReAdd string
  | PrintAddFailed
  | PrintConfirmedAdded string string
  | PrintFailedConfirmAdd
  | RpCallSessionStart
  | CallCategoryList string
  | PrintNoCategoryFound string
  | PrintFoundCategory string string

type_synonym 'p rp_state = "'p \<times> rp_event list"

subsection \<open>The three helpers\<close>

definition total_count :: "ce_list_response \<Rightarrow> int" where
  "total_count resp = (case totalCount resp of None \<Rightarrow> 0 | Some n \<Rightarrow> n)"

text \<open>\<^verbatim>\<open>entry_in_category\<close>: one list call; an exception of the call is not caught.\<close>

definition entry_in_category ::
  "'p platform \<Rightarrow> string \<Rightarrow> string \<Rightarrow> 'p rp_state \<Rightarrow> (exn + bool) \<times> 'p rp_state" where
  "entry_in_category cl entry_id category_id s =
     (case s of (p, tr) \<Rightarrow>
        (case categoryEntry_list cl p entry_id category_id of
           (Inl e, p') \<Rightarrow> (Inl e, (p', tr @ [CallList entry_id category_id]))
         | (Inr resp, p') \<Rightarrow>
             (Inr (0 < total_count resp), (p', tr @ [CallList entry_id category_id]))))"

text \<open>
  \<^verbatim>\<open>str(exc).replace("Entry doesn't assigned", "Entry isn't assigned")\<close>: Python's
  \<^verbatim>\<open>str.replace\<close> for a non-empty pattern, scanning from the left.
\<close>

fun str_replace :: "string \<Rightarrow> string \<Rightarrow> string \<Rightarrow> string" where
  "str_replace old new [] = []"
| "str_replace old new (c # cs) =
     (if old \<noteq> [] \<and> take (length old) (c # cs) = old
      then new @ str_replace old new (drop (length old - 1) cs)
      else c # str_replace old new cs)"

fun exn_str :: "exn \<Rightarrow> string" where
  "exn_str (KalturaException m) = m"
| "exn_str (OtherException m) = m"
| "exn_str IndexError = ''list index out of range''"
| "exn_str OverflowError = ''date value out of range''"
| "exn_str ValueError = ''invalid value''"
| "exn_str (RequestException m) = m"
| "exn_str TypeError = ''TypeError''"
| "exn_str AttributeError = ''AttributeError''"
| "exn_str KeyError = ''KeyError''"

text \<open>
  \<^verbatim>\<open>remove_from_category\<close>: the status query, then the delete call only when the
  association is active. \<^verbatim>\<open>objects[0]\<close> on an empty list raises \<open>IndexError\<close>, outside
  the \<^verbatim>\<open>try\<close>; an exception of the delete call is caught and gives \<open>False\<close>.
\<close>

definition remove_from_category ::
  "'p platform \<Rightarrow> string \<Rightarrow> string \<Rightarrow> 'p rp_state \<Rightarrow> (exn + bool) \<times> 'p rp_state" where
  "remove_from_category cl entry_id category_id s =
     (case s of (p, tr) \<Rightarrow>
        (case categoryEntry_list cl p entry_id category_id of
           (Inl e, p1) \<Rightarrow> (Inl e, (p1, tr @ [CallList entry_id category_id]))
         | (Inr status_resp, p1) \<Rightarrow>
             (let tr1 = tr @ [CallList entry_id category_id] in
              if 0 < total_count status_resp \<and> objects status_resp = []
              then (Inl IndexError, (p1, tr1))
              else
                (let is_active = (0 < total_count status_resp
                                   \<and> status_value (hd (objects status_resp)) = Some 2) in
                 if \<not> is_active
                 then (Inr True, (p1, tr1 @ [PrintNotActive entry_id category_id]))
                 else
                   (case categoryEntry_delete cl p1 entry_id category_id of
                      (Inr u, p2) \<Rightarrow> (Inr True, (p2, tr1 @ [CallDelete entry_id category_id]))
                    | (Inl exc, p2) \<Rightarrow>
                        (Inr False,
                         (p2, tr1 @ [CallDelete entry_id category_id,
                                     PrintCouldNotRemove
                                       (str_replace ''Entry doesn't assigned''
                                          ''Entry isn't assigned'' (exn_str exc))])))))))"

text \<open>\<^verbatim>\<open>add_to_category\<close>: one add call, its exception caught.\<close>

definition add_to_category ::
  "'p platform \<Rightarrow> string \<Rightarrow> string \<Rightarrow> 'p rp_state \<Rightarrow> bool \<times> 'p rp_state" where
  "add_to_category cl entry_id category_id s =
     (case s of (p, tr) \<Rightarrow>
        (case categoryEntry_add cl p entry_id category_id of
           (Inr u, p') \<Rightarrow> (True, (p', tr @ [CallAdd entry_id category_id]))
         | (Inl exc, p') \<Rightarrow>
             (False, (p', tr @ [CallAdd entry_id category_id,
                                PrintCouldNotReAdd (exn_str exc)]))))"

subsection \<open>The entry loop\<close>

text \<open>
  One iteration of the \<^verbatim>\<open>for entry_id in entry_ids\<close> loop. \<open>Inr\<close> is the state at the end
  of the iteration, whether it ran through or left by \<^verbatim>\<open>continue\<close>; \<open>Inl\<close> is an exception that
  nothing catches.
\<close>

definition emit :: "rp_event list \<Rightarrow> 'p rp_state \<Rightarrow> 'p rp_state" where
  "emit evs s = (fst s, snd s @ evs)"

definition process_entry ::
  "'p platform \<Rightarrow> string \<Rightarrow> string \<Rightarrow> 'p rp_state \<Rightarrow> (exn \<times> 'p rp_state) + 'p rp_state" where
  "process_entry cl category_id entry_id s =
     (let s0 = emit [PrintSeparator, PrintProcessing entry_id category_id, PrintRemoving] s in
      case remove_from_category cl entry_id category_id s0 of
        (Inl e, s1) \<Rightarrow> Inl (e, s1)
      | (Inr ok, s1) \<Rightarrow>
          if \<not> ok then Inr (emit [PrintRemovalFailed] s1)
          else
            (case entry_in_category cl entry_id category_id s1 of
               (Inl e, s2) \<Rightarrow> Inl (e, s2)
             | (Inr present, s2) \<Rightarrow>
                 if present then Inr (emit [PrintFailedConfirmRemoval] s2)
                 else
                   (let s3 = emit [PrintConfirmedRemoved entry_id category_id, PrintAdding] s2 in
                    case add_to_category cl entry_id category_id s3 of
                      (ok2, s4) \<Rightarrow>
                        if \<not> ok2 then Inr (emit [PrintAddFailed] s4)
                        else
                          (case entry_in_category cl entry_id category_id s4 of
                             (Inl e, s5) \<Rightarrow> Inl (e, s5)
                           | (Inr added, s5) \<Rightarrow>
                               if added
                               then Inr (emit [PrintConfirmedAdded entry_id category_id] s5)
                               else Inr (emit [PrintFailedConfirmAdd] s5)))))"

fun run_entries ::
  "'p platform \<Rightarrow> string \<Rightarrow> string list \<Rightarrow> 'p rp_state \<Rightarrow> (exn \<times> 'p rp_state) + 'p rp_state" where
  "run_entries cl category_id [] s = Inr s"
| "run_entries cl category_id (entry_id # rest) s =
     (case process_entry cl category_id entry_id s of
        Inl crash \<Rightarrow> Inl crash
      | Inr s' \<Rightarrow> run_entries cl category_id rest s')"


text \<open>Whether an event is an add call, and the events a step appended to the trace.\<close>

fun is_add :: "rp_event \<Rightarrow> bool" where
  "is_add (CallAdd e c) = True"
| "is_add ev = False"

fun is_delete :: "rp_event \<Rightarrow> bool" where
  "is_delete (CallDelete e c) = True"
| "is_delete ev = False"

definition events_since :: "'p rp_state \<Rightarrow> 'p rp_state \<Rightarrow> rp_event list" where
  "events_since s s' = drop (length (snd s)) (snd s')"

text \<open>
  Two platforms to run the workflow on. \<open>stuck_platform\<close> always reports one active
  association and accepts every delete and add without effect; \<open>pending_platform\<close> always
  reports one association whose status is 1 (pending), not 2 (active).
\<close>

definition stuck_platform :: "unit platform" where
  "stuck_platform =
     \<lparr> categoryEntry_list =
         (\<lambda>p e c. (Inr \<lparr> totalCount = Some 1, objects = [\<lparr> status_value = Some 2 \<rparr>] \<rparr>, p)),
       categoryEntry_delete = (\<lambda>p e c. (Inr (), p)),
       categoryEntry_add = (\<lambda>p e c. (Inr (), p)) \<rparr>"

definition pending_platform :: "unit platform" where
  "pending_platform =
     \<lparr> categoryEntry_list =
         (\<lambda>p e c. (Inr \<lparr> totalCount = Some 1, objects = [\<lparr> status_value = Some 1 \<rparr>] \<rparr>, p)),
       categoryEntry_delete = (\<lambda>p e c. (Inr (), p)),
       categoryEntry_add = (\<lambda>p e c. (Inr (), p)) \<rparr>"

subsection \<open>What the helpers append to the trace\<close>

lemma entry_in_category_trace:
  "entry_in_category cl e c s = (r, s') \<Longrightarrow> snd s' = snd s @ [CallList e c]"
  by (auto simp: entry_in_category_def split: prod.splits sum.splits)

lemma remove_from_category_trace:
  "remove_from_category cl e c s = (r, s') \<Longrightarrow>
     \<exists>evs. snd s' = snd s @ evs \<and> \<not> list_ex is_add evs"
  by (auto simp: remove_from_category_def Let_def split: prod.splits sum.splits if_splits)

subsection \<open>Verification failure stops the entry, not the run\<close>

text \<open>The trace at the end of an iteration or of the loop, whether it ended by an exception or not.\<close>

fun outcome_trace :: "(exn \<times> 'p rp_state) + 'p rp_state \<Rightarrow> rp_event list" where
  "outcome_trace (Inl (e, s)) = snd s"
| "outcome_trace (Inr s) = snd s"

lemma remove_from_category_starts:
  "remove_from_category cl e c s = (r, s') \<Longrightarrow>
     \<exists>evs. snd s' = snd s @ [CallList e c] @ evs"
  by (auto simp: remove_from_category_def Let_def split: prod.splits sum.splits if_splits)

lemma add_to_category_trace:
  "add_to_category cl e c s = (r, s') \<Longrightarrow> \<exists>evs. snd s' = snd s @ evs"
  by (auto simp: add_to_category_def split: prod.splits sum.splits)

lemma process_entry_starts:
  "\<exists>evs. outcome_trace (process_entry cl c e s)
           = snd s @ [PrintSeparator, PrintProcessing e c, PrintRemoving, CallList e c] @ evs"
proof -
  let ?s0 = "emit [PrintSeparator, PrintProcessing e c, PrintRemoving] s"
  obtain r s1 where rm: "remove_from_category cl e c ?s0 = (r, s1)"
    by (cases "remove_from_category cl e c ?s0")
  from remove_from_category_starts [OF rm] obtain ev1 where
    s1: "snd s1 = snd s @ [PrintSeparator, PrintProcessing e c, PrintRemoving, CallList e c] @ ev1"
    by (auto simp: emit_def)
  show ?thesis
  proof (cases r)
    case (Inl x)
    with rm s1 show ?thesis by (simp add: process_entry_def Let_def)
  next
    case (Inr ok)
    show ?thesis
    proof (cases ok)
      case False
      with Inr rm s1 show ?thesis by (simp add: process_entry_def Let_def emit_def)
    next
      case True
      obtain r2 s2 where v: "entry_in_category cl e c s1 = (r2, s2)"
        by (cases "entry_in_category cl e c s1")
      have s2: "snd s2 = snd s1 @ [CallList e c]"
        using entry_in_category_trace [OF v] .
      show ?thesis
      proof (cases r2)
        case (Inl x)
        with Inr True rm v s1 s2 show ?thesis by (simp add: process_entry_def Let_def)
      next
        case present: (Inr p)
        show ?thesis
        proof (cases p)
          case True
          with present Inr \<open>ok\<close> rm v s1 s2 show ?thesis
            by (simp add: process_entry_def Let_def emit_def)
        next
          case False
          let ?s3 = "emit [PrintConfirmedRemoved e c, PrintAdding] s2"
          obtain ok2 s4 where ad: "add_to_category cl e c ?s3 = (ok2, s4)"
            by (cases "add_to_category cl e c ?s3")
          from add_to_category_trace [OF ad] obtain ev4 where
            s4: "snd s4 = snd ?s3 @ ev4" by blast
          obtain r5 s5 where v2: "entry_in_category cl e c s4 = (r5, s5)"
            by (cases "entry_in_category cl e c s4")
          have s5: "snd s5 = snd s4 @ [CallList e c]"
            using entry_in_category_trace [OF v2] .
          from False present Inr \<open>ok\<close> rm v s1 s2 ad s4 v2 s5 show ?thesis
            by (cases ok2; cases r5) (auto simp: process_entry_def Let_def emit_def)
        qed
      qed
    qed
  qed
qed

lemma process_entry_extends:
  "\<exists>evs. outcome_trace (process_entry cl c e s) = snd s @ evs"
  using process_entry_starts [of cl c e s] by auto

lemma run_entries_extends:
  "\<exists>evs. outcome_trace (run_entries cl c es s) = snd s @ evs"
proof (induction es arbitrary: s)
  case Nil
  show ?case by simp
next
  case (Cons e es)
  show ?case
  proof (cases "process_entry cl c e s")
    case (Inl crash)
    then show ?thesis using process_entry_extends [of cl c e s] by simp
  next
    case (Inr s')
    from process_entry_extends [of cl c e s] Inr obtain ev1 where "snd s' = snd s @ ev1"
      by auto
    moreover from Cons.IH [of s'] obtain ev2 where
      "outcome_trace (run_entries cl c es s') = snd s' @ ev2" by blast
    ultimately show ?thesis using Inr by simp
  qed
qed

lemma run_entries_next_starts:
  "\<exists>evs. outcome_trace (run_entries cl c (e2 # rest) s)
           = snd s @ [PrintSeparator, PrintProcessing e2 c, PrintRemoving, CallList e2 c] @ evs"
proof (cases "process_entry cl c e2 s")
  case (Inl crash)
  then show ?thesis using process_entry_starts [of cl c e2 s] by simp
next
  case (Inr s')
  from process_entry_starts [of cl c e2 s] Inr obtain ev1 where
    "snd s' = snd s @ [PrintSeparator, PrintProcessing e2 c, PrintRemoving, CallList e2 c] @ ev1"
    by auto
  moreover from run_entries_extends [of cl c rest s'] obtain ev2 where
    "outcome_trace (run_entries cl c rest s') = snd s' @ ev2" by blast
  ultimately show ?thesis using Inr by simp
qed

text \<open>
  Claim C7. When the removal step reported success and the verification query that follows
  still reports the association as present, the iteration for that entry ends with the
  failure line "Failed to confirm removal" and no add call is among the events of the
  iteration. The loop then runs the iteration of the next entry id from the state the
  verification left: the trace of the whole run goes on, right behind the failure line,
  with the three lines that open the next entry and the status query for it.
\<close>

theorem verification_failure_skips_add:
  assumes rm: "remove_from_category cl e c
                 (emit [PrintSeparator, PrintProcessing e c, PrintRemoving] s) = (Inr True, s1)"
      and still: "entry_in_category cl e c s1 = (Inr True, s2)"
  shows "process_entry cl c e s = Inr (emit [PrintFailedConfirmRemoval] s2)
       \<and> \<not> list_ex is_add (events_since s (emit [PrintFailedConfirmRemoval] s2))
       \<and> last (events_since s (emit [PrintFailedConfirmRemoval] s2)) = PrintFailedConfirmRemoval
       \<and> run_entries cl c (e # rest) s
           = run_entries cl c rest (emit [PrintFailedConfirmRemoval] s2)
       \<and> run_entries cl c (e # e2 # rest2) s
           = (case process_entry cl c e2 (emit [PrintFailedConfirmRemoval] s2) of
                Inl crash \<Rightarrow> Inl crash
              | Inr s' \<Rightarrow> run_entries cl c rest2 s')
       \<and> (\<exists>evs. outcome_trace (run_entries cl c (e # e2 # rest2) s)
                   = snd s2 @ [PrintFailedConfirmRemoval]
                     @ [PrintSeparator, PrintProcessing e2 c, PrintRemoving, CallList e2 c]
                     @ evs)"
proof -
  let ?s' = "emit [PrintFailedConfirmRemoval] s2"
  have pe: "process_entry cl c e s = Inr ?s'"
    using rm still by (simp add: process_entry_def Let_def)
  obtain evs where evs: "snd s1 = snd s @ [PrintSeparator, PrintProcessing e c, PrintRemoving] @ evs"
      and noadd: "\<not> list_ex is_add evs"
    using remove_from_category_trace [OF rm] by (auto simp: emit_def)
  have s2: "snd s2 = snd s1 @ [CallList e c]"
    using entry_in_category_trace [OF still] .
  have since: "events_since s ?s'
                 = [PrintSeparator, PrintProcessing e c, PrintRemoving] @ evs
                   @ [CallList e c, PrintFailedConfirmRemoval]"
    by (simp add: events_since_def emit_def s2 evs)
  have c2: "\<not> list_ex is_add (events_since s ?s')"
    using noadd by (simp add: since)
  have c3: "last (events_since s ?s') = PrintFailedConfirmRemoval"
    by (simp add: since)
  have c4: "run_entries cl c (e # rest) s = run_entries cl c rest ?s'"
    by (simp add: pe)
  have c5: "run_entries cl c (e # e2 # rest2) s
           = (case process_entry cl c e2 ?s' of
                Inl crash \<Rightarrow> Inl crash
              | Inr s' \<Rightarrow> run_entries cl c rest2 s')"
    by (simp add: pe)
  have "run_entries cl c (e # e2 # rest2) s = run_entries cl c (e2 # rest2) ?s'"
    by (simp add: pe)
  moreover from run_entries_next_starts [of cl c e2 rest2 ?s'] obtain ev2 where
    "outcome_trace (run_entries cl c (e2 # rest2) ?s')
       = snd ?s' @ [PrintSeparator, PrintProcessing e2 c, PrintRemoving, CallList e2 c] @ ev2"
    by blast
  ultimately have c6: "\<exists>evs. outcome_trace (run_entries cl c (e # e2 # rest2) s)
                   = snd s2 @ [PrintFailedConfirmRemoval]
                     @ [PrintSeparator, PrintProcessing e2 c, PrintRemoving, CallList e2 c]
                     @ evs"
    by (simp add: emit_def)
  from pe c2 c3 c4 c5 c6 show ?thesis by (intro conjI)
qed

theorem verification_failure_skips_add_witness:
  "remove_from_category stuck_platform ''1_abc'' ''42''
       (emit [PrintSeparator, PrintProcessing ''1_abc'' ''42'', PrintRemoving] ((), []))
     = (Inr True, ((), [PrintSeparator, PrintProcessing ''1_abc'' ''42'', PrintRemoving,
                        CallList ''1_abc'' ''42'', CallDelete ''1_abc'' ''42'']))
   \<and> process_entry stuck_platform ''42'' ''1_abc'' ((), [])
     = Inr ((), [PrintSeparator, PrintProcessing ''1_abc'' ''42'', PrintRemoving,
                 CallList ''1_abc'' ''42'', CallDelete ''1_abc'' ''42'',
                 CallList ''1_abc'' ''42'', PrintFailedConfirmRemoval])
   \<and> run_entries stuck_platform ''42'' [''1_abc'', ''1_def''] ((), [])
     = Inr ((), [PrintSeparator, PrintProcessing ''1_abc'' ''42'', PrintRemoving,
                 CallList ''1_abc'' ''42'', CallDelete ''1_abc'' ''42'',
                 CallList ''1_abc'' ''42'', PrintFailedConfirmRemoval,
                 PrintSeparator, PrintProcessing ''1_def'' ''42'', PrintRemoving,
                 CallList ''1_def'' ''42'', CallDelete ''1_def'' ''42'',
                 CallList ''1_def'' ''42'', PrintFailedConfirmRemoval])"
proof -
  let ?s1 = "((), [PrintSeparator, PrintProcessing ''1_abc'' ''42'', PrintRemoving,
                   CallList ''1_abc'' ''42'', CallDelete ''1_abc'' ''42''])"
  let ?s2 = "((), [PrintSeparator, PrintProcessing ''1_abc'' ''42'', PrintRemoving,
                   CallList ''1_abc'' ''42'', CallDelete ''1_abc'' ''42'',
                   CallList ''1_abc'' ''42''])"
  have rm: "remove_from_category stuck_platform ''1_abc'' ''42''
              (emit [PrintSeparator, PrintProcessing ''1_abc'' ''42'', PrintRemoving] ((), []))
            = (Inr True, ?s1)"
    by (simp add: remove_from_category_def stuck_platform_def emit_def total_count_def)
  have still: "entry_in_category stuck_platform ''1_abc'' ''42'' ?s1 = (Inr True, ?s2)"
    by (simp add: entry_in_category_def stuck_platform_def total_count_def)
  have nxt: "process_entry stuck_platform ''42'' ''1_def'' (emit [PrintFailedConfirmRemoval] ?s2)
        = Inr ((), [PrintSeparator, PrintProcessing ''1_abc'' ''42'', PrintRemoving,
                 CallList ''1_abc'' ''42'', CallDelete ''1_abc'' ''42'',
                 CallList ''1_abc'' ''42'', PrintFailedConfirmRemoval,
                 PrintSeparator, PrintProcessing ''1_def'' ''42'', PrintRemoving,
                 CallList ''1_def'' ''42'', CallDelete ''1_def'' ''42'',
                 CallList ''1_def'' ''42'', PrintFailedConfirmRemoval])"
    by (simp add: process_entry_def remove_from_category_def entry_in_category_def
        stuck_platform_def emit_def total_count_def)
  show ?thesis
    using verification_failure_skips_add [OF rm still, of "[''1_def'']" "''1_def''" "[]"] rm nxt
    by (simp add: emit_def)
qed

subsection \<open>An association that exists but is not active\<close>

text \<open>
  Claim C4. On a platform that reports the association as present with status 1, the removal
  step prints its warning and issues no delete, the verification query finds the association
  still present, and the iteration ends there: no add call is issued.
\<close>

theorem non_active_association_is_not_readded:
  "process_entry pending_platform ''42'' ''1_abc'' ((), [])
     = Inr ((), [PrintSeparator, PrintProcessing ''1_abc'' ''42'', PrintRemoving,
                 CallList ''1_abc'' ''42'', PrintNotActive ''1_abc'' ''42'',
                 CallList ''1_abc'' ''42'', PrintFailedConfirmRemoval])"
  by (simp add: process_entry_def remove_from_category_def entry_in_category_def
      pending_platform_def emit_def total_count_def)


section \<open>Entry Downloader (download-entries.py)\<close>

subsection \<open>Entries, flavor assets and the client\<close>

text \<open>
  An entry as the client library returns it. A playlist or another non-media entry has no
  \<^verbatim>\<open>mediaType\<close> attribute: \<open>mediaType = None\<close> models \<^verbatim>\<open>hasattr(e, "mediaType")\<close> being false;
  otherwise the field holds the numeric value that
  \<^verbatim>\<open>getattr(e.mediaType, 'value', e.mediaType)\<close> reads. \<open>downloadUrl\<close> is \<open>None\<close> for Python's
  \<^verbatim>\<open>None\<close>.
\<close>

record entry =
  entry_id :: string
  entry_name :: string
  mediaType :: "int option"
  downloadUrl :: "string option"

record flavor_asset =
  flavor_id :: string
  isOriginal :: bool

record 'p dl_client =
  baseEntry_get :: "'p \<Rightarrow> string \<Rightarrow> (exn + entry) \<times> 'p"
  flavorAsset_list :: "'p \<Rightarrow> string \<Rightarrow> (exn + flavor_asset list) \<times> 'p"
  flavorAsset_getUrl :: "'p \<Rightarrow> string \<Rightarrow> (exn + string) \<times> 'p"

text \<open>
  The filter of a \<^verbatim>\<open>baseEntry.list\<close> call: the one attribute the script sets on it.
\<close>

datatype dl_filter =
    TagsLike string
  | CategoryAncestorIdIn string
  | IdIn string
  | UserIdEqual string
  | ParentEntryIdEqual string

datatype dl_event =
    CallGet string
  | CallFlavorList string
  | CallGetUrl string
  | Sleep nat
  | PrintAttemptFailed nat string string
  | PrintGivingUp string nat
  | PrintFlavorWarning string string
  | DlCallSessionStart
  | CallBaseList dl_filter "nat option"
  | HttpHead string
  | HttpGet string
  | SaveFile string
  | PrintInvalidMethod
  | PrintErrorRetrieving string
  | PrintChildError string string
  | PrintHeaderWarning string
  | PrintDownloadFailed string string

type_synonym 'p dl_state = "'p \<times> dl_event list"

definition RETRY_ATTEMPTS :: nat where
  "RETRY_ATTEMPTS = 3"

subsection \<open>Fetching the entry details, with retries\<close>

text \<open>
  \<^verbatim>\<open>for attempt in range(RETRY_ATTEMPTS)\<close>, as a recursion over the attempt indices still to
  run. Only a \<open>KalturaException\<close> is caught: the line is printed, the script sleeps
  \<open>2 ** attempt\<close> seconds and goes on with the next index. Any other exception leaves the
  function. When the indices are used up the function prints that it gives up and returns
  \<^verbatim>\<open>None\<close>.
\<close>

fun retry_loop ::
  "'p dl_client \<Rightarrow> string \<Rightarrow> nat list \<Rightarrow> 'p dl_state \<Rightarrow> (exn + entry option) \<times> 'p dl_state" where
  "retry_loop cl eid [] s = (Inr None, (fst s, snd s @ [PrintGivingUp eid RETRY_ATTEMPTS]))"
| "retry_loop cl eid (attempt # rest) s =
     (case baseEntry_get cl (fst s) eid of
        (Inr e, p') \<Rightarrow> (Inr (Some e), (p', snd s @ [CallGet eid]))
      | (Inl (KalturaException m), p') \<Rightarrow>
          retry_loop cl eid rest
            (p', snd s @ [CallGet eid, PrintAttemptFailed (attempt + 1) eid m, Sleep (2 ^ attempt)])
      | (Inl other, p') \<Rightarrow> (Inl other, (p', snd s @ [CallGet eid])))"

definition get_entry_details ::
  "'p dl_client \<Rightarrow> string \<Rightarrow> 'p dl_state \<Rightarrow> (exn + entry option) \<times> 'p dl_state" where
  "get_entry_details cl eid s = retry_loop cl eid [0..<RETRY_ATTEMPTS] s"

subsection \<open>Resolving the download URL\<close>

text \<open>
  \<^verbatim>\<open>get_flavor_download_url\<close>: one list call, the first asset flagged original, one
  \<^verbatim>\<open>getUrl\<close> call for it. A \<open>KalturaException\<close> of either call is caught and printed, and the
  result is \<^verbatim>\<open>None\<close>.
\<close>

definition get_flavor_download_url ::
  "'p dl_client \<Rightarrow> entry \<Rightarrow> 'p dl_state \<Rightarrow> (exn + string option) \<times> 'p dl_state" where
  "get_flavor_download_url cl e s =
     (case flavorAsset_list cl (fst s) (entry_id e) of
        (Inl (KalturaException m), p1) \<Rightarrow>
          (Inr None, (p1, snd s @ [CallFlavorList (entry_id e), PrintFlavorWarning (entry_id e) m]))
      | (Inl other, p1) \<Rightarrow> (Inl other, (p1, snd s @ [CallFlavorList (entry_id e)]))
      | (Inr flavors, p1) \<Rightarrow>
          (case find isOriginal flavors of
             None \<Rightarrow> (Inr None, (p1, snd s @ [CallFlavorList (entry_id e)]))
           | Some original_flavor \<Rightarrow>
               (case flavorAsset_getUrl cl p1 (flavor_id original_flavor) of
                  (Inr url, p2) \<Rightarrow>
                    (Inr (Some url),
                     (p2, snd s @ [CallFlavorList (entry_id e), CallGetUrl (flavor_id original_flavor)]))
                | (Inl (KalturaException m), p2) \<Rightarrow>
                    (Inr None,
                     (p2, snd s @ [CallFlavorList (entry_id e), CallGetUrl (flavor_id original_flavor),
                                   PrintFlavorWarning (entry_id e) m]))
                | (Inl other, p2) \<Rightarrow>
                    (Inl other,
                     (p2, snd s @ [CallFlavorList (entry_id e),
                                   CallGetUrl (flavor_id original_flavor)])))))"

text \<open>
  \<^verbatim>\<open>get_download_url\<close>. The first test is on the entry as listed, the second and the
  media type on the details fetched again.
\<close>

definition get_download_url ::
  "'p dl_client \<Rightarrow> entry \<Rightarrow> 'p dl_state \<Rightarrow> (exn + string option) \<times> 'p dl_state" where
  "get_download_url cl e s =
     (if mediaType e = None then (Inr None, s)
      else
        (case get_entry_details cl (entry_id e) s of
           (Inl x, s1) \<Rightarrow> (Inl x, s1)
         | (Inr None, s1) \<Rightarrow> (Inr None, s1)
         | (Inr (Some entry_details), s1) \<Rightarrow>
             (case mediaType entry_details of
                None \<Rightarrow> (Inr None, s1)
              | Some media_type \<Rightarrow>
                  if media_type = 2 then (Inr (downloadUrl entry_details), s1)
                  else get_flavor_download_url cl e s1)))"

text \<open>
  The post-filter of \<^verbatim>\<open>main\<close>:
  \<^verbatim>\<open>entries = [e for e in entries if hasattr(e, "mediaType")]\<close>.
\<close>

definition media_entries :: "entry list \<Rightarrow> entry list" where
  "media_entries entries = filter (\<lambda>e. mediaType e \<noteq> None) entries"

text \<open>Reading a trace: the sleeps in order, and which events are calls of which kind.\<close>

fun sleeps :: "dl_event list \<Rightarrow> nat list" where
  "sleeps [] = []"
| "sleeps (Sleep n # evs) = n # sleeps evs"
| "sleeps (ev # evs) = sleeps evs"

fun is_get :: "dl_event \<Rightarrow> bool" where
  "is_get (CallGet i) = True"
| "is_get ev = False"

fun is_flavor_call :: "dl_event \<Rightarrow> bool" where
  "is_flavor_call (CallFlavorList i) = True"
| "is_flavor_call (CallGetUrl i) = True"
| "is_flavor_call ev = False"



definition dl_events_since :: "'p dl_state \<Rightarrow> 'p dl_state \<Rightarrow> dl_event list" where
  "dl_events_since s s' = drop (length (snd s)) (snd s')"


definition image_client :: "unit dl_client" where
  "image_client =
     \<lparr> baseEntry_get =
         (\<lambda>p i. (Inr \<lparr> entry_id = i, entry_name = ''logo'', mediaType = Some 2,
                        downloadUrl = Some ''https://cdn/logo.png'' \<rparr>, p)),
       flavorAsset_list = (\<lambda>p i. (Inr [], p)),
       flavorAsset_getUrl = (\<lambda>p i. (Inr ''https://cdn/flavor'', p)) \<rparr>"

definition video_client :: "unit dl_client" where
  "video_client =
     \<lparr> baseEntry_get =
         (\<lambda>p i. (Inr \<lparr> entry_id = i, entry_name = ''lecture'', mediaType = Some 1,
                        downloadUrl = None \<rparr>, p)),
       flavorAsset_list =
         (\<lambda>p i. (Inr [\<lparr> flavor_id = ''0_web'', isOriginal = False \<rparr>,
                        \<lparr> flavor_id = ''0_src'', isOriginal = True \<rparr>,
                        \<lparr> flavor_id = ''0_old'', isOriginal = True \<rparr>,
                        \<lparr> flavor_id = ''0_mob'', isOriginal = False \<rparr>], p)),
       flavorAsset_getUrl = (\<lambda>p i. (Inr (''https://cdn/'' @ i), p)) \<rparr>"

subsection \<open>The retry loop\<close>

lemma attempts_eq: "[0..<RETRY_ATTEMPTS] = [0, 1, 2]"
  by (simp add: RETRY_ATTEMPTS_def upt_rec)

lemma retry_loop_trace:
  "retry_loop cl eid as s = (r, s') \<Longrightarrow>
     \<exists>evs k. snd s' = snd s @ evs \<and> k \<le> length as
        \<and> length (filter is_get evs) \<le> length as
        \<and> sleeps evs = map (\<lambda>a. 2 ^ a) (take k as)
        \<and> \<not> list_ex is_flavor_call evs"
proof (induction as arbitrary: s r s')
  case Nil
  then show ?case by (auto simp: RETRY_ATTEMPTS_def)
next
  case (Cons a as)
  show ?case
  proof (cases "baseEntry_get cl (fst s) eid")
    case (Pair res p')
    show ?thesis
    proof (cases res)
      case (Inr e)
      with Pair Cons.prems show ?thesis
        by (intro exI[of _ "[CallGet eid]"] exI[of _ 0]) auto
    next
      case (Inl x)
      show ?thesis
      proof (cases x)
        case (KalturaException m)
        let ?s1 = "(p', snd s @ [CallGet eid, PrintAttemptFailed (a + 1) eid m, Sleep (2 ^ a)])"
        from Pair Inl KalturaException Cons.prems
        have "retry_loop cl eid as ?s1 = (r, s')" by simp
        from Cons.IH [OF this] obtain evs k where
          h: "snd s' = snd ?s1 @ evs" "k \<le> length as"
             "length (filter is_get evs) \<le> length as"
             "sleeps evs = map (\<lambda>a. 2 ^ a) (take k as)"
             "\<not> list_ex is_flavor_call evs"
          by blast
        show ?thesis
          using h
          by (intro exI[of _ "[CallGet eid, PrintAttemptFailed (a + 1) eid m, Sleep (2 ^ a)] @ evs"]
                    exI[of _ "Suc k"]) auto
      qed (use Pair Inl Cons.prems in
            \<open>(intro exI[of _ "[CallGet eid]"] exI[of _ 0], auto)+\<close>)
    qed
  qed
qed

lemma get_entry_details_bounds:
  assumes "get_entry_details cl eid s = (r, s')"
  shows "length (filter is_get (dl_events_since s s')) \<le> 3
       \<and> (\<exists>k\<le>3. sleeps (dl_events_since s s') = take k [1, 2, 4])
       \<and> \<not> list_ex is_flavor_call (dl_events_since s s')"
proof -
  from assms have "retry_loop cl eid [0, 1, 2] s = (r, s')"
    by (simp add: get_entry_details_def attempts_eq)
  from retry_loop_trace [OF this] obtain evs k where
    h0: "snd s' = snd s @ evs" "k \<le> length [0, 1, 2::nat]"
       "length (filter is_get evs) \<le> length [0, 1, 2::nat]"
       "sleeps evs = map (\<lambda>a. 2 ^ a) (take k [0, 1, 2])" "\<not> list_ex is_flavor_call evs"
    by blast
  then have h: "snd s' = snd s @ evs" "k \<le> 3" "length (filter is_get evs) \<le> 3"
       "sleeps evs = map (\<lambda>a. 2 ^ a) (take k [0, 1, 2])" "\<not> list_ex is_flavor_call evs"
    by simp_all
  have "map (\<lambda>a. (2::nat) ^ a) (take k [0, 1, 2::nat])
          = take k (map (\<lambda>a. (2::nat) ^ a) [0, 1, 2::nat])"
    by (rule take_map [symmetric])
  then have "map (\<lambda>a. (2::nat) ^ a) (take k [0, 1, 2::nat]) = take k [1, 2, 4::nat]"
    by simp
  with h show ?thesis
    by (auto simp: dl_events_since_def)
qed





subsection \<open>Media-type filtering\<close>

lemma find_first:
  "(\<forall>x\<in>set pre. \<not> P x) \<Longrightarrow> P f \<Longrightarrow> find P (pre @ f # post) = Some f"
  by (induction pre) auto

lemma find_none: "(\<forall>x\<in>set xs. \<not> P x) \<Longrightarrow> find P xs = None"
  by (induction xs) auto

lemma flavor_url_of_first_original:
  assumes "flavorAsset_list cl (fst s) (entry_id e) = (Inr (pre @ f # post), p1)"
      and "\<forall>x\<in>set pre. \<not> isOriginal x" and "isOriginal f"
      and "flavorAsset_getUrl cl p1 (flavor_id f) = (Inr url, p2)"
  shows "get_flavor_download_url cl e s
           = (Inr (Some url),
              (p2, snd s @ [CallFlavorList (entry_id e), CallGetUrl (flavor_id f)]))"
  using assms by (simp add: get_flavor_download_url_def find_first)

lemma flavor_url_without_original:
  assumes "flavorAsset_list cl (fst s) (entry_id e) = (Inr flavors, p1)"
      and "\<forall>x\<in>set flavors. \<not> isOriginal x"
  shows "get_flavor_download_url cl e s = (Inr None, (p1, snd s @ [CallFlavorList (entry_id e)]))"
  using assms by (simp add: get_flavor_download_url_def find_none)

text \<open>
  Claim C6. An entry without a media type is not in the processing set that \<^verbatim>\<open>main\<close> keeps,
  and \<open>get_download_url\<close> returns \<^verbatim>\<open>None\<close> for it without any remote call. For an entry with
  a media type whose fetched details have media type 2, the URL is the details'
  \<^verbatim>\<open>downloadUrl\<close> and no flavor-asset call is issued. For any other media type of the details
  the result is that of the flavor-asset lookup, and that lookup asks the platform for the
  URL of the first flavor asset flagged original and returns it; when no asset is flagged
  original it returns \<^verbatim>\<open>None\<close> without asking for a URL.
\<close>

theorem media_type_decides_url_resolution:
  "(x \<in> set (media_entries es) \<longleftrightarrow> x \<in> set es \<and> mediaType x \<noteq> None)
 \<and> (mediaType e0 = None \<longrightarrow>
      e0 \<notin> set (media_entries es) \<and> get_download_url cl e0 s = (Inr None, s))
 \<and> (mediaType e \<noteq> None \<and> get_entry_details cl (entry_id e) s = (Inr (Some d), s1)
      \<and> mediaType d = Some 2 \<longrightarrow>
      get_download_url cl e s = (Inr (downloadUrl d), s1)
    \<and> \<not> list_ex is_flavor_call (dl_events_since s s1))
 \<and> (mediaType e \<noteq> None \<and> get_entry_details cl (entry_id e) s = (Inr (Some d'), s1')
      \<and> mediaType d' = Some t \<and> t \<noteq> 2 \<longrightarrow>
      get_download_url cl e s = get_flavor_download_url cl e s1')
 \<and> (mediaType e \<noteq> None \<and> get_entry_details cl (entry_id e) s = (Inr (Some d'), s1')
      \<and> mediaType d' = Some t \<and> t \<noteq> 2
      \<and> flavorAsset_list cl (fst s1') (entry_id e) = (Inr (pre @ f # post), p1)
      \<and> (\<forall>x\<in>set pre. \<not> isOriginal x) \<and> isOriginal f
      \<and> flavorAsset_getUrl cl p1 (flavor_id f) = (Inr url, p2) \<longrightarrow>
      get_download_url cl e s
        = (Inr (Some url),
           (p2, snd s1' @ [CallFlavorList (entry_id e), CallGetUrl (flavor_id f)])))
 \<and> (mediaType e \<noteq> None \<and> get_entry_details cl (entry_id e) s = (Inr (Some d'), s1')
      \<and> mediaType d' = Some t \<and> t \<noteq> 2
      \<and> flavorAsset_list cl (fst s1') (entry_id e) = (Inr flavors, p1)
      \<and> (\<forall>x\<in>set flavors. \<not> isOriginal x) \<longrightarrow>
      get_download_url cl e s = (Inr None, (p1, snd s1' @ [CallFlavorList (entry_id e)])))"
proof (intro conjI impI)
  show "x \<in> set (media_entries es) \<longleftrightarrow> x \<in> set es \<and> mediaType x \<noteq> None"
    by (simp add: media_entries_def)
next
  assume "mediaType e0 = None"
  then show "e0 \<notin> set (media_entries es)" and "get_download_url cl e0 s = (Inr None, s)"
    by (simp_all add: media_entries_def get_download_url_def)
next
  assume h: "mediaType e \<noteq> None \<and> get_entry_details cl (entry_id e) s = (Inr (Some d), s1)
      \<and> mediaType d = Some 2"
  then show "get_download_url cl e s = (Inr (downloadUrl d), s1)"
    by (auto simp: get_download_url_def)
  from h have "get_entry_details cl (entry_id e) s = (Inr (Some d), s1)" by simp
  from get_entry_details_bounds [OF this]
  show "\<not> list_ex is_flavor_call (dl_events_since s s1)" by blast
next
  assume "mediaType e \<noteq> None \<and> get_entry_details cl (entry_id e) s = (Inr (Some d'), s1')
      \<and> mediaType d' = Some t \<and> t \<noteq> 2"
  then show "get_download_url cl e s = get_flavor_download_url cl e s1'"
    by (auto simp: get_download_url_def)
next
  assume h: "mediaType e \<noteq> None \<and> get_entry_details cl (entry_id e) s = (Inr (Some d'), s1')
      \<and> mediaType d' = Some t \<and> t \<noteq> 2
      \<and> flavorAsset_list cl (fst s1') (entry_id e) = (Inr (pre @ f # post), p1)
      \<and> (\<forall>x\<in>set pre. \<not> isOriginal x) \<and> isOriginal f
      \<and> flavorAsset_getUrl cl p1 (flavor_id f) = (Inr url, p2)"
  then have "get_download_url cl e s = get_flavor_download_url cl e s1'"
    by (auto simp: get_download_url_def)
  moreover from h have "get_flavor_download_url cl e s1'
           = (Inr (Some url),
              (p2, snd s1' @ [CallFlavorList (entry_id e), CallGetUrl (flavor_id f)]))"
    by (intro flavor_url_of_first_original [where pre = pre and post = post and ?p1.0 = p1])
       simp_all
  ultimately show "get_download_url cl e s
        = (Inr (Some url),
           (p2, snd s1' @ [CallFlavorList (entry_id e), CallGetUrl (flavor_id f)]))"
    by simp
next
  assume h: "mediaType e \<noteq> None \<and> get_entry_details cl (entry_id e) s = (Inr (Some d'), s1')
      \<and> mediaType d' = Some t \<and> t \<noteq> 2
      \<and> flavorAsset_list cl (fst s1') (entry_id e) = (Inr flavors, p1)
      \<and> (\<forall>x\<in>set flavors. \<not> isOriginal x)"
  then have "get_download_url cl e s = get_flavor_download_url cl e s1'"
    by (auto simp: get_download_url_def)
  moreover from h have "get_flavor_download_url cl e s1'
           = (Inr None, (p1, snd s1' @ [CallFlavorList (entry_id e)]))"
    by (intro flavor_url_without_original [where flavors = flavors]) simp_all
  ultimately show "get_download_url cl e s
        = (Inr None, (p1, snd s1' @ [CallFlavorList (entry_id e)]))"
    by simp
qed

theorem media_type_decides_url_resolution_witness:
  "get_download_url image_client
      \<lparr> entry_id = ''1_img'', entry_name = ''logo'', mediaType = Some 2, downloadUrl = None \<rparr>
      ((), [])
    = (Inr (Some ''https://cdn/logo.png''), ((), [CallGet ''1_img'']))
 \<and> get_download_url video_client
      \<lparr> entry_id = ''1_vid'', entry_name = ''lecture'', mediaType = Some 1, downloadUrl = None \<rparr>
      ((), [])
    = (Inr (Some ''https://cdn/0_src''),
       ((), [CallGet ''1_vid'', CallFlavorList ''1_vid'', CallGetUrl ''0_src'']))
 \<and> get_download_url (video_client \<lparr> flavorAsset_list :=
        (\<lambda>p i. (Inr [\<lparr> flavor_id = ''0_web'', isOriginal = False \<rparr>], p)) \<rparr>)
      \<lparr> entry_id = ''1_vid'', entry_name = ''lecture'', mediaType = Some 1, downloadUrl = None \<rparr>
      ((), [])
    = (Inr None, ((), [CallGet ''1_vid'', CallFlavorList ''1_vid'']))
 \<and> media_entries
      [\<lparr> entry_id = ''1_pl'', entry_name = ''playlist'', mediaType = None, downloadUrl = None \<rparr>,
       \<lparr> entry_id = ''1_img'', entry_name = ''logo'', mediaType = Some 2, downloadUrl = None \<rparr>]
    = [\<lparr> entry_id = ''1_img'', entry_name = ''logo'', mediaType = Some 2, downloadUrl = None \<rparr>]
 \<and> get_download_url video_client
      \<lparr> entry_id = ''1_pl'', entry_name = ''playlist'', mediaType = None, downloadUrl = None \<rparr>
      ((), [])
    = (Inr None, ((), []))"
proof -
  let ?img = "\<lparr> entry_id = ''1_img'', entry_name = ''logo'', mediaType = Some (2::int),
                downloadUrl = None \<rparr>"
  let ?vid = "\<lparr> entry_id = ''1_vid'', entry_name = ''lecture'', mediaType = Some (1::int),
                downloadUrl = None \<rparr>"
  let ?pl = "\<lparr> entry_id = ''1_pl'', entry_name = ''playlist'', mediaType = None,
               downloadUrl = None \<rparr>"
  let ?web = "\<lparr> flavor_id = ''0_web'', isOriginal = False \<rparr>"
  let ?src = "\<lparr> flavor_id = ''0_src'', isOriginal = True \<rparr>"
  let ?old = "\<lparr> flavor_id = ''0_old'', isOriginal = True \<rparr>"
  let ?mob = "\<lparr> flavor_id = ''0_mob'', isOriginal = False \<rparr>"
  let ?none = "video_client \<lparr> flavorAsset_list := (\<lambda>p i. (Inr [?web], p)) \<rparr>"
  have di: "get_entry_details image_client ''1_img'' ((), [])
        = (Inr (Some \<lparr> entry_id = ''1_img'', entry_name = ''logo'', mediaType = Some 2,
                        downloadUrl = Some ''https://cdn/logo.png'' \<rparr>), ((), [CallGet ''1_img'']))"
    unfolding get_entry_details_def attempts_eq by (simp add: image_client_def)
  have dv: "get_entry_details video_client ''1_vid'' ((), [])
        = (Inr (Some \<lparr> entry_id = ''1_vid'', entry_name = ''lecture'', mediaType = Some 1,
                        downloadUrl = None \<rparr>), ((), [CallGet ''1_vid'']))"
    unfolding get_entry_details_def attempts_eq by (simp add: video_client_def)
  have dn: "get_entry_details ?none ''1_vid'' ((), [])
        = (Inr (Some \<lparr> entry_id = ''1_vid'', entry_name = ''lecture'', mediaType = Some 1,
                        downloadUrl = None \<rparr>), ((), [CallGet ''1_vid'']))"
    unfolding get_entry_details_def attempts_eq by (simp add: video_client_def)
  have lv: "flavorAsset_list video_client (fst ((), [CallGet ''1_vid''])) (entry_id ?vid)
        = (Inr ([?web] @ ?src # [?old, ?mob]), ())"
    by (simp add: video_client_def)
  have gv: "flavorAsset_getUrl video_client () (flavor_id ?src) = (Inr ''https://cdn/0_src'', ())"
    by (simp add: video_client_def)
  have ln: "flavorAsset_list ?none (fst ((), [CallGet ''1_vid''])) (entry_id ?vid)
        = (Inr [?web], ())"
    by simp
  let ?dimg = "\<lparr> entry_id = ''1_img'', entry_name = ''logo'', mediaType = Some (2::int),
                 downloadUrl = Some ''https://cdn/logo.png'' \<rparr>"
  note t = media_type_decides_url_resolution
  have ha: "mediaType ?img \<noteq> None
      \<and> get_entry_details image_client (entry_id ?img) ((), [])
          = (Inr (Some ?dimg), ((), [CallGet ''1_img'']))
      \<and> mediaType ?dimg = Some 2"
    using di by simp
  from t [where cl = image_client and e = ?img and s = "((), [])" and d = ?dimg
            and ?s1.0 = "((), [CallGet ''1_img''])",
          THEN conjunct2, THEN conjunct2, THEN conjunct1, THEN mp, OF ha]
  have a: "get_download_url image_client ?img ((), [])
             = (Inr (Some ''https://cdn/logo.png''), ((), [CallGet ''1_img'']))"
    by simp
  have hb: "mediaType ?vid \<noteq> None
      \<and> get_entry_details video_client (entry_id ?vid) ((), [])
          = (Inr (Some ?vid), ((), [CallGet ''1_vid'']))
      \<and> mediaType ?vid = Some 1 \<and> (1::int) \<noteq> 2
      \<and> flavorAsset_list video_client (fst ((), [CallGet ''1_vid''])) (entry_id ?vid)
          = (Inr ([?web] @ ?src # [?old, ?mob]), ())
      \<and> (\<forall>x\<in>set [?web]. \<not> isOriginal x) \<and> isOriginal ?src
      \<and> flavorAsset_getUrl video_client () (flavor_id ?src) = (Inr ''https://cdn/0_src'', ())"
    using dv lv gv by simp
  from t [where cl = video_client and e = ?vid and s = "((), [])" and d' = ?vid
            and s1' = "((), [CallGet ''1_vid''])" and t = 1
            and pre = "[?web]" and f = ?src and post = "[?old, ?mob]" and ?p1.0 = "()"
            and url = "''https://cdn/0_src''" and ?p2.0 = "()",
          THEN conjunct2, THEN conjunct2, THEN conjunct2, THEN conjunct2, THEN conjunct1,
          THEN mp, OF hb]
  have b: "get_download_url video_client ?vid ((), [])
             = (Inr (Some ''https://cdn/0_src''),
                ((), [CallGet ''1_vid'', CallFlavorList ''1_vid'', CallGetUrl ''0_src'']))"
    by simp
  have hn: "mediaType ?vid \<noteq> None
      \<and> get_entry_details ?none (entry_id ?vid) ((), [])
          = (Inr (Some ?vid), ((), [CallGet ''1_vid'']))
      \<and> mediaType ?vid = Some 1 \<and> (1::int) \<noteq> 2
      \<and> flavorAsset_list ?none (fst ((), [CallGet ''1_vid''])) (entry_id ?vid)
          = (Inr [?web], ())
      \<and> (\<forall>x\<in>set [?web]. \<not> isOriginal x)"
    using dn ln by simp
  from t [where cl = ?none and e = ?vid and s = "((), [])" and d' = ?vid
            and s1' = "((), [CallGet ''1_vid''])" and t = 1
            and flavors = "[?web]" and ?p1.0 = "()",
          THEN conjunct2, THEN conjunct2, THEN conjunct2, THEN conjunct2, THEN conjunct2,
          THEN mp, OF hn]
  have n: "get_download_url ?none ?vid ((), [])
             = (Inr None, ((), [CallGet ''1_vid'', CallFlavorList ''1_vid'']))"
    by simp
  have hc: "mediaType ?pl = None" by simp
  from t [where cl = video_client and ?e0.0 = ?pl and s = "((), [])",
          THEN conjunct2, THEN conjunct1, THEN mp, OF hc]
  have c: "get_download_url video_client ?pl ((), []) = (Inr None, ((), []))"
    by simp
  from a b n c show ?thesis
    by (simp add: media_entries_def)
qed

subsection \<open>Deriving the file name\<close>

text \<open>
  Strings are lists of characters with code points below 256. \<open>is_space\<close> is Python's
  \<^verbatim>\<open>str.isspace\<close> on that range, which is also what \<^verbatim>\<open>\s\<close> matches in a \<^verbatim>\<open>str\<close> pattern and what
  \<^verbatim>\<open>strip()\<close> removes: tab, line feed, vertical tab, form feed, carriage return, the four
  separators 28 to 31, space, next line (133) and the no-break space (160).
\<close>

definition is_space :: "char \<Rightarrow> bool" where
  "is_space c = (of_char c \<in> {9, 10, 11, 12, 13, 28, 29, 30, 31, 32, 133, 160 :: nat})"

text \<open>
  \<^verbatim>\<open>os.path.splitext\<close> of \<^verbatim>\<open>posixpath\<close>: the extension starts at the last dot, when that dot
  comes after the last slash and some character between the two is not a dot. \<open>rfind\<close> is
  \<^verbatim>\<open>str.rfind\<close> for one character, \<open>- 1\<close> when it does not occur.
\<close>

definition rfind :: "char \<Rightarrow> string \<Rightarrow> int" where
  "rfind c p = (if c \<in> set p
                then int (length p) - 1 - int (length (takeWhile (\<lambda>x. x \<noteq> c) (rev p)))
                else - 1)"

definition splitext :: "string \<Rightarrow> string \<times> string" where
  "splitext p =
     (let sepIndex = rfind CHR ''/'' p;
          dotIndex = rfind CHR ''.'' p
      in if dotIndex > sepIndex
            \<and> list_ex (\<lambda>c. c \<noteq> CHR ''.'')
                 (take (nat (dotIndex - (sepIndex + 1))) (drop (nat (sepIndex + 1)) p))
         then (take (nat dotIndex) p, drop (nat dotIndex) p)
         else (p, []))"

text \<open>\<^verbatim>\<open>str(counter)\<close> for a counter that is never negative.\<close>

definition digit_char :: "nat \<Rightarrow> char" where
  "digit_char d = ''0123456789'' ! d"

fun str_nat :: "nat \<Rightarrow> string" where
  "str_nat n = (if n < 10 then [digit_char n] else str_nat (n div 10) @ [digit_char (n mod 10)])"

declare str_nat.simps [simp del]

text \<open>
  The collision loop of \<^verbatim>\<open>get_file_name\<close>. \<open>existing\<close> lists the names \<open>f\<close> for which
  \<^verbatim>\<open>os.path.exists(os.path.join(DOWNLOAD_FOLDER, f))\<close> holds. Each round splits the current
  \<^verbatim>\<open>filename\<close>, the one the round before built, and appends the counter to its base. The
  names grow, so the loop ends once they are longer than every existing name.
\<close>

definition max_len :: "string list \<Rightarrow> nat" where
  "max_len names = foldr (\<lambda>n m. max (length n) m) names 0"

lemma max_len_ge: "x \<in> set names \<Longrightarrow> length x \<le> max_len names"
  by (induction names) (auto simp: max_len_def)

lemma splitext_append: "fst (splitext p) @ snd (splitext p) = p"
  by (simp add: splitext_def Let_def)

lemma unique_name_grows:
  assumes "filename \<in> set existing"
  shows "max_len existing
           - (length (fst (splitext filename)) + (length (str_nat c) + length (snd (splitext filename))))
         < Suc (max_len existing) - length filename"
proof -
  have "length (fst (splitext filename)) + length (snd (splitext filename)) = length filename"
    using arg_cong [OF splitext_append [of filename], of length] by simp
  moreover have "length filename \<le> max_len existing"
    using assms by (rule max_len_ge)
  ultimately show ?thesis by simp
qed

function unique_name :: "string list \<Rightarrow> string \<Rightarrow> nat \<Rightarrow> string" where
  "unique_name existing filename counter =
     (if filename \<in> set existing
      then (let counter' = counter + 1;
                base = fst (splitext filename);
                ext = snd (splitext filename)
            in unique_name existing (base @ ''_'' @ str_nat counter' @ ext) counter')
      else filename)"
  by pat_completeness auto
termination
  by (relation "measure (\<lambda>(existing, filename, counter). Suc (max_len existing) - length filename)")
     (simp_all add: unique_name_grows)

declare unique_name.simps [simp del]

text \<open>
  The cleanup under \<^verbatim>\<open>REMOVE_SUFFIX\<close>. \<^verbatim>\<open>re.sub(r"[\s_]*\(Source\)[\s_]*", "", base)\<close> tries a
  match at each position from the left: the longest run of separators, then the marker, then
  again the longest run of separators; backtracking into a run cannot help, since the marker
  starts with a bracket. On a match the scan goes on behind it, otherwise the character is
  kept. \<^verbatim>\<open>re.sub(r"[_\-\s]+$", "", base)\<close> removes a run of underscores, dashes and white space
  that reaches the end of the string.
\<close>

definition is_sep_dl :: "char \<Rightarrow> bool" where
  "is_sep_dl c = (is_space c \<or> c = CHR ''_'')"

definition is_trail_dl :: "char \<Rightarrow> bool" where
  "is_trail_dl c = (c = CHR ''_'' \<or> c = CHR ''-'' \<or> is_space c)"

function sub_source_dl :: "string \<Rightarrow> string" where
  "sub_source_dl [] = []"
| "sub_source_dl (c # cs) =
     (let r = dropWhile is_sep_dl (c # cs)
      in if take 8 r = ''(Source)''
         then sub_source_dl (dropWhile is_sep_dl (drop 8 r))
         else c # sub_source_dl cs)"
  by pat_completeness auto

lemma take_marker_length:
  assumes "take 8 r = ''(Source)''"
  shows "8 \<le> length r"
proof -
  have "length (take 8 r) = 8" by (simp add: assms)
  then show ?thesis by simp
qed

lemma marker_step_shorter:
  assumes "take 8 (dropWhile P (c # cs)) = ''(Source)''"
  shows "length (dropWhile Q (drop 8 (dropWhile P (c # cs)))) < Suc (length cs)"
proof -
  have "length (dropWhile Q (drop 8 (dropWhile P (c # cs))))
          \<le> length (drop 8 (dropWhile P (c # cs)))"
    by (rule length_dropWhile_le)
  moreover have "8 \<le> length (dropWhile P (c # cs))"
    using assms by (rule take_marker_length)
  moreover have "length (dropWhile P (c # cs)) \<le> length (c # cs)"
    by (rule length_dropWhile_le)
  ultimately show ?thesis by simp
qed

termination sub_source_dl
  by (relation "measure length") (simp_all add: marker_step_shorter del: dropWhile.simps)

declare sub_source_dl.simps [simp del]

fun sub_trailing_dl :: "string \<Rightarrow> string" where
  "sub_trailing_dl [] = []"
| "sub_trailing_dl (c # cs) =
     (if is_trail_dl c \<and> dropWhile is_trail_dl cs = [] then []
      else c # sub_trailing_dl cs)"

definition REMOVE_SUFFIX :: bool where
  "REMOVE_SUFFIX = True"

definition cleanup_dl :: "string \<Rightarrow> string" where
  "cleanup_dl filename =
     (let base = fst (splitext filename);
          ext = snd (splitext filename);
          base1 = sub_source_dl base;
          base2 = sub_trailing_dl base1
      in base2 @ ext)"

text \<open>
  \<^verbatim>\<open>get_file_name\<close> from the point where the raw name is known (from the
  \<^verbatim>\<open>Content-Disposition\<close> header or the last segment of the URL path); \<^verbatim>\<open>counter\<close> has its
  default 0.
\<close>

definition get_file_name :: "string list \<Rightarrow> string \<Rightarrow> string" where
  "get_file_name existing raw_name =
     unique_name existing (if REMOVE_SUFFIX then cleanup_dl raw_name else raw_name) 0"

lemma unique_name_free: "unique_name existing filename counter \<notin> set existing"
proof (induction existing filename counter rule: unique_name.induct)
  case (1 existing filename counter)
  show ?case
  proof (cases "filename \<in> set existing")
    case True
    with "1" show ?thesis
      by (subst unique_name.simps) (simp add: Let_def)
  next
    case False
    then show ?thesis
      by (subst unique_name.simps) simp
  qed
qed

lemma get_file_name_free: "get_file_name existing raw_name \<notin> set existing"
  by (simp add: get_file_name_def unique_name_free)

text \<open>
  Claim C2. With \<^verbatim>\<open>video.mp4\<close> and \<^verbatim>\<open>video_1.mp4\<close> in the folder, the name derived for another
  \<^verbatim>\<open>video.mp4\<close> is \<^verbatim>\<open>video_1_2.mp4\<close>: the second round appends its counter to the name the
  first round built, not to the original base.
\<close>

theorem collision_suffixes_accumulate:
  "get_file_name [''video.mp4'', ''video_1.mp4''] ''video.mp4'' = ''video_1_2.mp4''"
  by code_simp

section \<open>Count/Duration Reporter (report-count-duration.py)\<close>

subsection \<open>Cleaning the original file name\<close>

text \<open>
  \<^verbatim>\<open>clean_filename\<close>. \<^verbatim>\<open>re.sub(r"\s*\(Source\)", "", filename)\<close> scans as above, with white
  space only before the marker. \<^verbatim>\<open>re.sub(r"_*\.mp4$", ".mp4", cleaned)\<close> matches where a run of
  underscores is followed by \<^verbatim>\<open>.mp4\<close> and then the end of the string or the line feed that
  ends it; at most one such place exists. \<^verbatim>\<open>strip()\<close> removes white space at both ends.
\<close>

function sub_source_rp :: "string \<Rightarrow> string" where
  "sub_source_rp [] = []"
| "sub_source_rp (c # cs) =
     (let r = dropWhile is_space (c # cs)
      in if take 8 r = ''(Source)''
         then sub_source_rp (drop 8 r)
         else c # sub_source_rp cs)"
  by pat_completeness auto

lemma marker_step_shorter_rp:
  assumes "take 8 (dropWhile P (c # cs)) = ''(Source)''"
  shows "length (dropWhile P (c # cs)) - 8 < Suc (length cs)"
proof -
  have "8 \<le> length (dropWhile P (c # cs))"
    using assms by (rule take_marker_length)
  moreover have "length (dropWhile P (c # cs)) \<le> length (c # cs)"
    by (rule length_dropWhile_le)
  ultimately show ?thesis by simp
qed

termination sub_source_rp
  by (relation "measure length") (simp_all add: marker_step_shorter_rp del: dropWhile.simps)

declare sub_source_rp.simps [simp del]

fun sub_mp4 :: "string \<Rightarrow> string" where
  "sub_mp4 [] = []"
| "sub_mp4 (c # cs) =
     (let r = dropWhile (\<lambda>x. x = CHR ''_'') (c # cs)
      in if r = ''.mp4'' then ''.mp4''
         else if r = ''.mp4'' @ [CHR 0x0A] then ''.mp4'' @ [CHR 0x0A]
         else c # sub_mp4 cs)"

definition py_strip :: "string \<Rightarrow> string" where
  "py_strip s = rev (dropWhile is_space (rev (dropWhile is_space s)))"

definition clean_filename :: "string \<Rightarrow> string" where
  "clean_filename filename = py_strip (sub_mp4 (sub_source_rp filename))"

subsection \<open>When the two cleanups are idempotent\<close>

text \<open>Whether a name contains the marker, and whether it ends with a given string.\<close>

fun has_marker :: "string \<Rightarrow> bool" where
  "has_marker [] = False"
| "has_marker (c # cs) = (take 8 (c # cs) = ''(Source)'' \<or> has_marker cs)"

definition ends_with :: "string \<Rightarrow> string \<Rightarrow> bool" where
  "ends_with suf s = (take (length suf) (rev s) = rev suf)"

lemma has_marker_dropWhile: "has_marker (dropWhile P s) \<Longrightarrow> has_marker s"
  by (induction s) (auto split: if_splits)

lemma take_marker_has: "take 8 r = ''(Source)'' \<Longrightarrow> has_marker r"
  by (cases r) auto

lemma sub_source_dl_id: "\<not> has_marker s \<Longrightarrow> sub_source_dl s = s"
proof (induction s)
  case Nil
  show ?case by (simp add: sub_source_dl.simps)
next
  case (Cons c cs)
  have "take 8 (dropWhile is_sep_dl (c # cs)) \<noteq> ''(Source)''"
    using Cons.prems take_marker_has has_marker_dropWhile by blast
  moreover have "sub_source_dl cs = cs"
    using Cons by simp
  ultimately show ?case
    by (simp add: sub_source_dl.simps Let_def del: dropWhile.simps)
qed

lemma sub_source_rp_id: "\<not> has_marker s \<Longrightarrow> sub_source_rp s = s"
proof (induction s)
  case Nil
  show ?case by (simp add: sub_source_rp.simps)
next
  case (Cons c cs)
  have "take 8 (dropWhile is_space (c # cs)) \<noteq> ''(Source)''"
    using Cons.prems take_marker_has has_marker_dropWhile by blast
  moreover have "sub_source_rp cs = cs"
    using Cons by simp
  ultimately show ?case
    by (simp add: sub_source_rp.simps Let_def del: dropWhile.simps)
qed

lemma dropWhile_nil_iff: "dropWhile P xs = [] \<longleftrightarrow> (\<forall>x\<in>set xs. P x)"
  by (induction xs) auto

lemma sub_trailing_dl_rev: "sub_trailing_dl s = rev (dropWhile is_trail_dl (rev s))"
proof (induction s)
  case Nil
  show ?case by simp
next
  case (Cons c cs)
  show ?case
  proof (cases "\<forall>x\<in>set cs. is_trail_dl x")
    case True
    have "dropWhile is_trail_dl (rev cs @ [c]) = dropWhile is_trail_dl [c]"
      by (rule dropWhile_append2) (use True in auto)
    moreover have "dropWhile is_trail_dl cs = []"
      using True by (simp add: dropWhile_nil_iff)
    moreover have "sub_trailing_dl cs = []"
      using Cons.IH True by (simp add: dropWhile_nil_iff)
    ultimately show ?thesis by simp
  next
    case False
    then obtain x where "x \<in> set (rev cs)" "\<not> is_trail_dl x" by auto
    then have "dropWhile is_trail_dl (rev cs @ [c]) = dropWhile is_trail_dl (rev cs) @ [c]"
      by (rule dropWhile_append1)
    moreover have "dropWhile is_trail_dl cs \<noteq> []"
      using False by (simp add: dropWhile_nil_iff)
    ultimately show ?thesis using Cons.IH by simp
  qed
qed

lemma sub_trailing_dl_idem: "sub_trailing_dl (sub_trailing_dl s) = sub_trailing_dl s"
  by (simp add: sub_trailing_dl_rev)

lemma cleanup_dl_idem_if:
  assumes same_ext: "snd (splitext (cleanup_dl n)) = snd (splitext n)"
      and no_marker: "\<not> has_marker (fst (splitext (cleanup_dl n)))"
  shows "cleanup_dl (cleanup_dl n) = cleanup_dl n"
proof -
  define ext where "ext = snd (splitext n)"
  define b2 where "b2 = sub_trailing_dl (sub_source_dl (fst (splitext n)))"
  have c: "cleanup_dl n = b2 @ ext"
    by (simp add: cleanup_dl_def Let_def b2_def ext_def)
  have "fst (splitext (b2 @ ext)) @ snd (splitext (b2 @ ext)) = b2 @ ext"
    by (rule splitext_append)
  then have base: "fst (splitext (b2 @ ext)) = b2"
    using same_ext by (simp add: c ext_def [symmetric])
  have "sub_source_dl b2 = b2"
    using no_marker by (simp add: c base sub_source_dl_id)
  moreover have "sub_trailing_dl b2 = b2"
    by (simp add: b2_def sub_trailing_dl_idem)
  ultimately have "cleanup_dl (b2 @ ext) = b2 @ ext"
    using same_ext by (simp add: cleanup_dl_def [of "b2 @ ext"] Let_def base c ext_def [symmetric])
  then show ?thesis by (simp add: c)
qed

lemma ends_with_Cons: "ends_with suf cs \<Longrightarrow> ends_with suf (c # cs)"
proof -
  assume h: "ends_with suf cs"
  then have "length (take (length suf) (rev cs)) = length (rev suf)"
    by (simp add: ends_with_def)
  then have "length suf \<le> length cs" by simp
  then show ?thesis using h by (simp add: ends_with_def)
qed

lemma ends_with_append: "ends_with suf (pre @ suf)"
  by (simp add: ends_with_def)

lemma underscores_then:
  assumes "dropWhile (\<lambda>x. x = CHR ''_'') (CHR ''_'' # cs) = r"
  shows "ends_with (CHR ''_'' # r) (CHR ''_'' # cs)"
proof -
  let ?P = "\<lambda>x. x = CHR ''_''"
  let ?tw = "takeWhile ?P (CHR ''_'' # cs)"
  have tw: "?tw \<noteq> []" by simp
  have "\<forall>x\<in>set ?tw. x = CHR ''_''"
    by (metis (mono_tags, lifting) set_takeWhileD)
  then have "last ?tw = CHR ''_''" using tw last_in_set by blast
  then have "?tw = butlast ?tw @ [CHR ''_'']"
    using tw append_butlast_last_id by metis
  moreover have "CHR ''_'' # cs = ?tw @ r"
    using assms takeWhile_dropWhile_id by metis
  ultimately have "CHR ''_'' # cs = butlast ?tw @ (CHR ''_'' # r)"
    by (metis append.assoc append_Cons append_Nil)
  then show ?thesis by (metis ends_with_append)
qed

lemma sub_mp4_id:
  assumes "\<not> ends_with ''_.mp4'' s" and "\<not> ends_with (''_.mp4'' @ [CHR 0x0A]) s"
  shows "sub_mp4 s = s"
  using assms
proof (induction s)
  case Nil
  show ?case by simp
next
  case (Cons c cs)
  let ?r = "dropWhile (\<lambda>x. x = CHR ''_'') (c # cs)"
  have ih: "sub_mp4 cs = cs"
    using Cons ends_with_Cons by blast
  show ?case
  proof (cases "c = CHR ''_''")
    case True
    have "?r \<noteq> ''.mp4''"
      using underscores_then [of cs "''.mp4''"] Cons.prems(1) True by auto
    moreover have "?r \<noteq> ''.mp4'' @ [CHR 0x0A]"
      using underscores_then [of cs "''.mp4'' @ [CHR 0x0A]"] Cons.prems(2) True by auto
    ultimately show ?thesis
      using ih by (simp add: Let_def del: dropWhile.simps)
  next
    case False
    then have "?r = c # cs" by simp
    then show ?thesis using ih by (simp add: Let_def)
  qed
qed

lemma py_strip_idem: "py_strip (py_strip s) = py_strip s"
proof -
  define u where "u = dropWhile is_space s"
  define t where "t = rev (dropWhile is_space (rev u))"
  have u: "u = [] \<or> \<not> is_space (hd u)"
    unfolding u_def by (metis hd_dropWhile)
  have pre: "\<exists>w. u = t @ w"
    unfolding t_def
    by (metis rev_append rev_rev_ident takeWhile_dropWhile_id)
  have "dropWhile is_space t = t"
  proof (cases t)
    case Nil
    then show ?thesis by simp
  next
    case (Cons x xs)
    with pre u have "\<not> is_space x" by auto
    with Cons show ?thesis by simp
  qed
  then have "py_strip t = rev (dropWhile is_space (rev t))"
    by (simp add: py_strip_def)
  also have "\<dots> = t"
    by (simp add: t_def)
  finally show ?thesis
    by (simp add: py_strip_def t_def u_def)
qed

lemma py_strip_last: "py_strip s \<noteq> [] \<Longrightarrow> \<not> is_space (last (py_strip s))"
proof -
  assume ne: "py_strip s \<noteq> []"
  let ?d = "dropWhile is_space (rev (dropWhile is_space s))"
  have "?d \<noteq> []" using ne by (simp add: py_strip_def)
  then have "\<not> is_space (hd ?d)" by (rule hd_dropWhile)
  moreover have "last (py_strip s) = hd ?d"
    using \<open>?d \<noteq> []\<close> by (simp add: py_strip_def last_rev)
  ultimately show ?thesis by simp
qed

lemma ends_with_last:
  assumes "ends_with (x @ [ch]) s"
  shows "s \<noteq> [] \<and> last s = ch"
proof -
  from assms have h: "take (Suc (length x)) (rev s) = ch # rev x"
    by (simp add: ends_with_def)
  then have "rev s \<noteq> []" by auto
  then obtain y ys where r: "rev s = y # ys" by (cases "rev s") auto
  with h have "y = ch" by simp
  with r have "hd (rev s) = ch" by simp
  moreover have "s \<noteq> []" using r by auto
  ultimately show ?thesis by (simp add: hd_rev)
qed

lemma clean_filename_idem_if:
  assumes no_marker: "\<not> has_marker (clean_filename m)"
      and no_us: "\<not> ends_with ''_.mp4'' (clean_filename m)"
  shows "clean_filename (clean_filename m) = clean_filename m"
proof -
  define c where "c = clean_filename m"
  have strip: "py_strip c = c"
    by (simp add: c_def clean_filename_def py_strip_idem)
  have nl: "is_space (CHR 0x0A)" by (simp add: is_space_def)
  have "\<not> ends_with (''_.mp4'' @ [CHR 0x0A]) c"
  proof
    assume "ends_with (''_.mp4'' @ [CHR 0x0A]) c"
    then have "c \<noteq> [] \<and> last c = CHR 0x0A" by (rule ends_with_last)
    moreover have "c \<noteq> [] \<Longrightarrow> \<not> is_space (last c)"
      using py_strip_last [of "sub_mp4 (sub_source_rp m)"]
      by (simp add: c_def clean_filename_def)
    ultimately show False using nl by auto
  qed
  then have "sub_mp4 c = c"
    using no_us sub_mp4_id by (simp add: c_def)
  moreover have "sub_source_rp c = c"
    using no_marker by (simp add: c_def sub_source_rp_id)
  ultimately have "clean_filename c = c"
    using strip by (simp add: clean_filename_def)
  then show ?thesis by (simp add: c_def)
qed


text \<open>
  Claim C5, as stated, fails: cleaning is not idempotent on every name. Removing a marker can
  put the pieces of another one together, in both tools; in the Downloader a cleaned base that
  became empty lets the old extension be read as the base the second time; in the Reporter the
  final \<^verbatim>\<open>strip()\<close> can uncover an \<^verbatim>\<open>_.mp4\<close> ending that the pattern did not see.
\<close>

theorem cleanup_not_idempotent_on_every_name:
  "cleanup_dl ''(Sou(Source)rce).mp4'' = ''(Source).mp4''
 \<and> cleanup_dl (cleanup_dl ''(Sou(Source)rce).mp4'') = ''.mp4''
 \<and> cleanup_dl ''(Source).x_'' = ''.x_''
 \<and> cleanup_dl (cleanup_dl ''(Source).x_'') = ''.x''
 \<and> clean_filename ''(Sou(Source)rce).mp4'' = ''(Source).mp4''
 \<and> clean_filename (clean_filename ''(Sou(Source)rce).mp4'') = ''.mp4''
 \<and> clean_filename ''x_.mp4 '' = ''x_.mp4''
 \<and> clean_filename (clean_filename ''x_.mp4 '') = ''x.mp4''"
  by code_simp

text \<open>
  Claim C5, amended. In both tools \<^verbatim>\<open>Lecture_1_(Source).mp4\<close> cleans to \<^verbatim>\<open>Lecture_1.mp4\<close>, which
  cleans to itself. In general, cleaning a cleaned name changes nothing in the Downloader
  whenever the cleaned name still splits at the same extension and its base contains no
  marker, and in the Reporter whenever the cleaned name contains no marker and does not end
  in \<^verbatim>\<open>_.mp4\<close>.
\<close>

theorem cleanup_idempotent_on_clean_names:
  "cleanup_dl ''Lecture_1_(Source).mp4'' = ''Lecture_1.mp4''
 \<and> cleanup_dl ''Lecture_1.mp4'' = ''Lecture_1.mp4''
 \<and> clean_filename ''Lecture_1_(Source).mp4'' = ''Lecture_1.mp4''
 \<and> clean_filename ''Lecture_1.mp4'' = ''Lecture_1.mp4''
 \<and> (snd (splitext (cleanup_dl n)) = snd (splitext n)
      \<and> \<not> has_marker (fst (splitext (cleanup_dl n))) \<longrightarrow>
      cleanup_dl (cleanup_dl n) = cleanup_dl n)
 \<and> (\<not> has_marker (clean_filename m) \<and> \<not> ends_with ''_.mp4'' (clean_filename m) \<longrightarrow>
      clean_filename (clean_filename m) = clean_filename m)"
proof (intro conjI impI)
  show "cleanup_dl ''Lecture_1_(Source).mp4'' = ''Lecture_1.mp4''" by code_simp
  show "cleanup_dl ''Lecture_1.mp4'' = ''Lecture_1.mp4''" by code_simp
  show "clean_filename ''Lecture_1_(Source).mp4'' = ''Lecture_1.mp4''" by code_simp
  show "clean_filename ''Lecture_1.mp4'' = ''Lecture_1.mp4''" by code_simp
next
  assume "snd (splitext (cleanup_dl n)) = snd (splitext n)
      \<and> \<not> has_marker (fst (splitext (cleanup_dl n)))"
  then show "cleanup_dl (cleanup_dl n) = cleanup_dl n"
    using cleanup_dl_idem_if by blast
next
  assume "\<not> has_marker (clean_filename m) \<and> \<not> ends_with ''_.mp4'' (clean_filename m)"
  then show "clean_filename (clean_filename m) = clean_filename m"
    using clean_filename_idem_if by blast
qed

theorem cleanup_idempotent_on_clean_names_witness:
  "snd (splitext (cleanup_dl ''my file _ (Source) _-.mp4''))
     = snd (splitext ''my file _ (Source) _-.mp4'')
 \<and> \<not> has_marker (fst (splitext (cleanup_dl ''my file _ (Source) _-.mp4'')))
 \<and> cleanup_dl (cleanup_dl ''my file _ (Source) _-.mp4'') = cleanup_dl ''my file _ (Source) _-.mp4''
 \<and> \<not> has_marker (clean_filename ''  a  (Source) b___.mp4'')
 \<and> \<not> ends_with ''_.mp4'' (clean_filename ''  a  (Source) b___.mp4'')
 \<and> clean_filename (clean_filename ''  a  (Source) b___.mp4'')
     = clean_filename ''  a  (Source) b___.mp4''"
proof -
  have h1: "snd (splitext (cleanup_dl ''my file _ (Source) _-.mp4''))
              = snd (splitext ''my file _ (Source) _-.mp4'')"
    by code_simp
  have h2: "\<not> has_marker (fst (splitext (cleanup_dl ''my file _ (Source) _-.mp4'')))"
    by code_simp
  have h3: "\<not> has_marker (clean_filename ''  a  (Source) b___.mp4'')"
    by code_simp
  have h4: "\<not> ends_with ''_.mp4'' (clean_filename ''  a  (Source) b___.mp4'')"
    by code_simp
  show ?thesis
    using cleanup_idempotent_on_clean_names
            [of "''my file _ (Source) _-.mp4''" "''  a  (Source) b___.mp4''"]
          h1 h2 h3 h4
    by blast
qed

subsection \<open>Dates and the chunks of the date range\<close>

text \<open>
  Division by a positive number steps up exactly at the multiples.
\<close>

lemma div_succ:
  fixes k d :: int
  assumes "0 < d"
  shows "(k + 1) div d = k div d + (if (k + 1) mod d = 0 then 1 else 0)"
proof (cases "(k + 1) mod d = 0")
  case True
  then obtain q where q: "k + 1 = d * q" by (auto simp: mod_eq_0_iff_dvd)
  then have k: "k = d * (q - 1) + (d - 1)" by (simp add: algebra_simps)
  have "k div d = q - 1"
    unfolding k using assms by (simp add: div_pos_pos_trivial)
  moreover have "(k + 1) div d = q" using q assms by simp
  ultimately show ?thesis using True by simp
next
  case False
  define r where "r = k mod d"
  have r: "0 \<le> r" "r < d" using assms by (simp_all add: r_def)
  have k: "k = d * (k div d) + r" by (simp add: r_def)
  have "r + 1 \<noteq> d"
  proof
    assume "r + 1 = d"
    then have "k + 1 = d * (k div d + 1)" using k by (simp add: algebra_simps)
    then have "(k + 1) mod d = 0" by (metis mod_mult_self1_is_0)
    with False show False by simp
  qed
  with r have r1: "0 \<le> r + 1" "r + 1 < d" by simp_all
  have "k + 1 = d * (k div d) + (r + 1)" using k by simp
  then have "(k + 1) div d = (d * (k div d) + (r + 1)) div d"
    by (rule arg_cong [where f = "\<lambda>x. x div d"])
  also have "\<dots> = k div d" using r1 assms by (simp add: div_pos_pos_trivial)
  finally show ?thesis using False by simp
qed

text \<open>
  The proleptic Gregorian calendar of Python's \<^verbatim>\<open>datetime.date\<close>. A date is modelled by its
  ordinal, the number \<^verbatim>\<open>date.toordinal()\<close> returns (1 for 0001-01-01, 3652059 for 9999-12-31):
  dates are compared by it and \<^verbatim>\<open>timedelta\<close> days are added to it. \<open>days_before_year\<close>,
  \<open>days_before_month\<close>, \<open>days_in_month\<close> and \<open>ymd2ord\<close> are the library's functions of the
  same names.
\<close>

definition is_leap :: "int \<Rightarrow> bool" where
  "is_leap y = (y mod 4 = 0 \<and> (y mod 100 \<noteq> 0 \<or> y mod 400 = 0))"

definition days_before_year :: "int \<Rightarrow> int" where
  "days_before_year year =
     (let y = year - 1 in y * 365 + y div 4 - y div 100 + y div 400)"

lemma mod_400_100: "(y::int) mod 400 = 0 \<Longrightarrow> y mod 100 = 0"
  using mod_mod_cancel [of 100 400 y] by simp

lemma mod_100_4: "(y::int) mod 100 = 0 \<Longrightarrow> y mod 4 = 0"
  using mod_mod_cancel [of 4 100 y] by simp


lemma dby_step:
  "days_before_year (y + 1) = days_before_year y + (if is_leap y then 366 else 365)"
proof -
  have a: "y div 4 = (y - 1) div 4 + (if y mod 4 = 0 then 1 else 0)"
    using div_succ [of 4 "y - 1"] by simp
  have b: "y div 100 = (y - 1) div 100 + (if y mod 100 = 0 then 1 else 0)"
    using div_succ [of 100 "y - 1"] by simp
  have c: "y div 400 = (y - 1) div 400 + (if y mod 400 = 0 then 1 else 0)"
    using div_succ [of 400 "y - 1"] by simp
  have d: "days_before_year (y + 1) = y * 365 + y div 4 - y div 100 + y div 400"
    by (simp add: days_before_year_def)
  have e: "days_before_year y
             = (y - 1) * 365 + (y - 1) div 4 - (y - 1) div 100 + (y - 1) div 400"
    by (simp add: days_before_year_def Let_def)
  show ?thesis
  proof (cases "y mod 400 = 0")
    case True
    then have "y mod 100 = 0" by (rule mod_400_100)
    moreover from this have "y mod 4 = 0" by (rule mod_100_4)
    ultimately have "y mod 100 = 0" "y mod 4 = 0" by simp_all
    with True show ?thesis
      unfolding d e a b c is_leap_def by (simp add: algebra_simps)
  next
    case n400: False
    show ?thesis
    proof (cases "y mod 100 = 0")
      case True
      then have "y mod 4 = 0" by (rule mod_100_4)
      with True n400 show ?thesis
        unfolding d e a b c is_leap_def by (simp add: algebra_simps)
    next
      case False
      with n400 show ?thesis
        unfolding d e a b c is_leap_def by (simp add: algebra_simps)
    qed
  qed
qed


lemma dby_step_bounds:
  "days_before_year y + 365 \<le> days_before_year (y + 1)"
  "days_before_year (y + 1) \<le> days_before_year y + 366"
  by (simp_all add: dby_step)

lemma dby_grows:
  assumes "a \<le> b"
  shows "days_before_year a + 365 * (b - a) \<le> days_before_year b
       \<and> days_before_year b \<le> days_before_year a + 366 * (b - a)"
  using assms
proof (induction b rule: int_ge_induct)
  case base
  show ?case by simp
next
  case (step i)
  then show ?case
    using dby_step_bounds [of i] by (simp add: algebra_simps)
qed

lemma dby_mono: "a \<le> b \<Longrightarrow> days_before_year a \<le> days_before_year b"
  using dby_grows [of a b] by simp

lemma dby_strict: "a < b \<Longrightarrow> days_before_year a < days_before_year b"
  using dby_grows [of a b] by simp

lemma dby_1: "days_before_year 1 = 0"
  by (simp add: days_before_year_def)

text \<open>
  The year of an ordinal: the first year, searching upwards from a year that is not too
  late, whose last day is not before the ordinal.
\<close>

function find_year :: "int \<Rightarrow> int \<Rightarrow> int" where
  "find_year n y = (if n \<le> days_before_year (y + 1) then y else find_year n (y + 1))"
  by pat_completeness auto
termination
proof (relation "measure (\<lambda>(n, y). nat (n - days_before_year (y + 1)))")
  show "wf (measure (\<lambda>(n, y). nat (n - days_before_year (y + 1))))" by simp
next
  fix n y :: int
  assume "\<not> n \<le> days_before_year (y + 1)"
  then show "((n, y + 1), (n, y)) \<in> measure (\<lambda>(n, y). nat (n - days_before_year (y + 1)))"
    using dby_step_bounds(1) [of "y + 1"] by simp
qed

declare find_year.simps [simp del]

definition year_of :: "int \<Rightarrow> int" where
  "year_of n = find_year n ((n - 1) div 366 + 1)"

lemma find_year_upper: "n \<le> days_before_year (find_year n y + 1)"
proof (induction n y rule: find_year.induct)
  case (1 n y)
  then show ?case
    by (subst find_year.simps) simp
qed

lemma find_year_lower:
  "days_before_year y < n \<Longrightarrow> days_before_year (find_year n y) < n"
proof (induction n y rule: find_year.induct)
  case (1 n y)
  show ?case
  proof (cases "n \<le> days_before_year (y + 1)")
    case True
    with "1.prems" show ?thesis by (subst find_year.simps) simp
  next
    case False
    then have "days_before_year (find_year n (y + 1)) < n"
      using "1.IH" by simp
    with False show ?thesis by (subst find_year.simps) simp
  qed
qed

lemma dby_estimate:
  assumes "1 \<le> n"
  shows "days_before_year ((n - 1) div 366 + 1) < n"
proof -
  define k where "k = (n - 1) div 366"
  have k0: "0 \<le> k" using assms by (simp add: k_def)
  have "366 * k \<le> n - 1"
    unfolding k_def
    using mult_div_mod_eq [of 366 "n - 1"] pos_mod_sign [of 366 "n - 1"] by linarith
  moreover have "days_before_year (k + 1) \<le> days_before_year 1 + 366 * (k + 1 - 1)"
    using dby_grows [of 1 "k + 1"] k0 by simp
  ultimately show ?thesis by (simp add: dby_1 k_def)
qed


lemma year_of_bounds:
  assumes "1 \<le> n"
  shows "days_before_year (year_of n) < n" and "n \<le> days_before_year (year_of n + 1)"
  unfolding year_of_def
  using find_year_lower [OF dby_estimate [OF assms]] find_year_upper by simp_all

lemma year_of_upper: "n \<le> days_before_year (year_of n + 1)"
  unfolding year_of_def by (rule find_year_upper)

lemma year_of_unique:
  assumes "1 \<le> n" "days_before_year y < n" "n \<le> days_before_year (y + 1)"
  shows "year_of n = y"
proof (rule ccontr)
  assume ne: "year_of n \<noteq> y"
  show False
  proof (cases "year_of n < y")
    case True
    then have "days_before_year (year_of n + 1) \<le> days_before_year y"
      by (intro dby_mono) simp
    with year_of_bounds(2) [OF assms(1)] assms(2) show False by simp
  next
    case False
    with ne have "y + 1 \<le> year_of n" by simp
    then have "days_before_year (y + 1) \<le> days_before_year (year_of n)"
      by (rule dby_mono)
    with year_of_bounds(1) [OF assms(1)] assms(3) show False by simp
  qed
qed

lemma year_of_ge_1: "1 \<le> n \<Longrightarrow> 1 \<le> year_of n"
proof (rule ccontr)
  assume n: "1 \<le> n" and "\<not> 1 \<le> year_of n"
  then have "year_of n + 1 \<le> 1" by simp
  then have "days_before_year (year_of n + 1) \<le> days_before_year 1" by (rule dby_mono)
  with year_of_upper [of n] n show False by (simp add: dby_1)
qed

definition month_table :: "int \<Rightarrow> int" where
  "month_table month =
     (if month = 1 then 0 else if month = 2 then 31 else if month = 3 then 59
      else if month = 4 then 90 else if month = 5 then 120 else if month = 6 then 151
      else if month = 7 then 181 else if month = 8 then 212 else if month = 9 then 243
      else if month = 10 then 273 else if month = 11 then 304 else 334)"

definition days_before_month :: "int \<Rightarrow> int \<Rightarrow> int" where
  "days_before_month year month =
     month_table month + (if month > 2 \<and> is_leap year then 1 else 0)"

definition days_in_month :: "int \<Rightarrow> int \<Rightarrow> int" where
  "days_in_month year month =
     (if month = 2 then (if is_leap year then 29 else 28)
      else if month = 4 \<or> month = 6 \<or> month = 9 \<or> month = 11 then 30 else 31)"

definition ymd2ord :: "int \<Rightarrow> int \<Rightarrow> int \<Rightarrow> int" where
  "ymd2ord year month day = days_before_year year + days_before_month year month + day"

text \<open>
  The month of a day of the year, and the month and day of an ordinal.
\<close>

definition month_of_doy :: "int \<Rightarrow> int \<Rightarrow> int" where
  "month_of_doy y d =
     (if d \<le> days_before_month y 2 then 1
      else if d \<le> days_before_month y 3 then 2
      else if d \<le> days_before_month y 4 then 3
      else if d \<le> days_before_month y 5 then 4
      else if d \<le> days_before_month y 6 then 5
      else if d \<le> days_before_month y 7 then 6
      else if d \<le> days_before_month y 8 then 7
      else if d \<le> days_before_month y 9 then 8
      else if d \<le> days_before_month y 10 then 9
      else if d \<le> days_before_month y 11 then 10
      else if d \<le> days_before_month y 12 then 11
      else 12)"

definition month_of :: "int \<Rightarrow> int" where
  "month_of n = month_of_doy (year_of n) (n - days_before_year (year_of n))"

definition day_of :: "int \<Rightarrow> int" where
  "day_of n = n - days_before_year (year_of n) - days_before_month (year_of n) (month_of n)"

lemma month_cases:
  "1 \<le> (m::int) \<Longrightarrow> m \<le> 12 \<Longrightarrow>
     m = 1 \<or> m = 2 \<or> m = 3 \<or> m = 4 \<or> m = 5 \<or> m = 6 \<or> m = 7 \<or> m = 8 \<or> m = 9
     \<or> m = 10 \<or> m = 11 \<or> m = 12"
  by arith

lemma month_of_doy_range: "1 \<le> month_of_doy y d \<and> month_of_doy y d \<le> 12"
  by (simp add: month_of_doy_def)

lemma month_of_range: "1 \<le> month_of n \<and> month_of n \<le> 12"
  by (simp add: month_of_def month_of_doy_range)

lemma doy_upper:
  assumes "d \<le> (if is_leap y then 366 else 365)"
  shows "d \<le> days_before_month y (month_of_doy y d) + days_in_month y (month_of_doy y d)"
proof (cases "is_leap y")
  case True
  with assms show ?thesis
    by (simp add: month_of_doy_def days_before_month_def days_in_month_def month_table_def)
next
  case False
  with assms show ?thesis
    by (simp add: month_of_doy_def days_before_month_def days_in_month_def month_table_def)
qed

lemma doy_lower:
  assumes "0 < d"
  shows "days_before_month y (month_of_doy y d) < d"
proof (cases "is_leap y")
  case True
  with assms show ?thesis
    by (simp add: month_of_doy_def days_before_month_def month_table_def)
next
  case False
  with assms show ?thesis
    by (simp add: month_of_doy_def days_before_month_def month_table_def)
qed

text \<open>The last day of the month of \<open>n\<close> is not before \<open>n\<close>; this holds for every integer.\<close>

lemma month_end_upper:
  "n \<le> days_before_year (year_of n) + days_before_month (year_of n) (month_of n)
         + days_in_month (year_of n) (month_of n)"
proof -
  have "n - days_before_year (year_of n) \<le> (if is_leap (year_of n) then 366 else 365)"
    using year_of_upper [of n] by (simp add: dby_step)
  from doy_upper [OF this] show ?thesis by (simp add: month_of_def)
qed

lemma month_start_lower:
  assumes "1 \<le> n"
  shows "days_before_year (year_of n) + days_before_month (year_of n) (month_of n) < n"
proof -
  have "0 < n - days_before_year (year_of n)"
    using year_of_bounds(1) [OF assms] by simp
  from doy_lower [OF this, of "year_of n"] show ?thesis by (simp add: month_of_def)
qed


lemma days_in_month_range: "28 \<le> days_in_month y m \<and> days_in_month y m \<le> 31"
  by (simp add: days_in_month_def)

lemma dbm_next:
  assumes "1 \<le> m" "m < 12"
  shows "days_before_month y (m + 1) = days_before_month y m + days_in_month y m"
proof -
  from assms have "m = 1 \<or> m = 2 \<or> m = 3 \<or> m = 4 \<or> m = 5 \<or> m = 6 \<or> m = 7 \<or> m = 8
      \<or> m = 9 \<or> m = 10 \<or> m = 11"
    by arith
  then show ?thesis
    by (elim disjE) (simp_all add: days_before_month_def days_in_month_def month_table_def)
qed

lemma dbm_december:
  "days_before_month y 12 + 31 = (if is_leap y then 366 else 365)"
  by (simp add: days_before_month_def month_table_def)

lemma dbm_nonneg_bound:
  assumes "1 \<le> m" "m \<le> 12"
  shows "0 \<le> days_before_month y m
       \<and> days_before_month y m + days_in_month y m \<le> (if is_leap y then 366 else 365)"
proof -
  from month_cases [OF assms] show ?thesis
    by (elim disjE) (simp_all add: days_before_month_def days_in_month_def month_table_def)
qed

lemma month_of_doy_unique:
  assumes "1 \<le> m" "m \<le> 12" "1 \<le> d" "d \<le> days_in_month y m"
  shows "month_of_doy y (days_before_month y m + d) = m"
proof -
  from month_cases [OF assms(1,2)] show ?thesis
    using assms(3,4)
    by (elim disjE)
       (simp_all add: month_of_doy_def days_before_month_def days_in_month_def month_table_def
          split: if_splits)
qed

lemma year_of_ymd:
  assumes "1 \<le> y" "1 \<le> m" "m \<le> 12" "1 \<le> d" "d \<le> days_in_month y m"
  shows "year_of (ymd2ord y m d) = y"
proof (rule year_of_unique)
  have y0: "0 \<le> days_before_year y"
    using dby_mono [of 1 y] assms(1) by (simp add: dby_1)
  have b: "0 \<le> days_before_month y m
       \<and> days_before_month y m + days_in_month y m \<le> (if is_leap y then 366 else 365)"
    using dbm_nonneg_bound [OF assms(2,3)] .
  show "1 \<le> ymd2ord y m d" using y0 b assms(4) by (simp add: ymd2ord_def)
  show "days_before_year y < ymd2ord y m d" using b assms(4) by (simp add: ymd2ord_def)
  have "days_before_month y m + d \<le> (if is_leap y then 366 else 365)"
    using b assms(5) by (simp split: if_splits)
  then show "ymd2ord y m d \<le> days_before_year (y + 1)"
    by (simp add: ymd2ord_def dby_step split: if_splits)
qed

lemma month_of_ymd:
  assumes "1 \<le> y" "1 \<le> m" "m \<le> 12" "1 \<le> d" "d \<le> days_in_month y m"
  shows "month_of (ymd2ord y m d) = m"
proof -
  have "year_of (ymd2ord y m d) = y" using assms by (rule year_of_ymd)
  then have "month_of (ymd2ord y m d) = month_of_doy y (days_before_month y m + d)"
    by (simp add: month_of_def ymd2ord_def)
  also have "\<dots> = m" using assms(2-5) by (rule month_of_doy_unique)
  finally show ?thesis .
qed


text \<open>
  \<^verbatim>\<open>date(year, month, day)\<close>, which \<^verbatim>\<open>replace\<close> calls, raises \<^verbatim>\<open>ValueError\<close> outside the years 1
  to 9999 and the days of the month; \<^verbatim>\<open>date + timedelta(days)\<close> raises \<^verbatim>\<open>OverflowError\<close> when the
  result is not an ordinal of a date.
\<close>

definition MAXORDINAL :: int where
  "MAXORDINAL = 3652059"

lemma dby_10000: "days_before_year 10000 = 3652059"
  by (simp add: days_before_year_def)

definition mk_date :: "int \<Rightarrow> int \<Rightarrow> int \<Rightarrow> exn + int" where
  "mk_date year month day =
     (if 1 \<le> year \<and> year \<le> 9999 \<and> 1 \<le> month \<and> month \<le> 12
         \<and> 1 \<le> day \<and> day \<le> days_in_month year month
      then Inr (ymd2ord year month day) else Inl ValueError)"

definition add_days :: "int \<Rightarrow> int \<Rightarrow> exn + int" where
  "add_days d days =
     (let o' = d + days in if 0 < o' \<and> o' \<le> MAXORDINAL then Inr o' else Inl OverflowError)"

text \<open>
  The end of the chunk that starts at \<open>current\<close>, before clamping:
  \<^verbatim>\<open>current.replace(month=12, day=31)\<close> for yearly,
  \<^verbatim>\<open>(current.replace(day=28) + timedelta(days=4)).replace(day=1) - timedelta(days=1)\<close> for
  monthly, \<^verbatim>\<open>current + timedelta(days=6)\<close> for weekly, \<open>current\<close> for daily, \<^verbatim>\<open>ValueError\<close>
  for any other interval type.
\<close>

definition next_date :: "int \<Rightarrow> int \<Rightarrow> exn + int" where
  "next_date interval_type current =
     (if interval_type = 1 then mk_date (year_of current) 12 31
      else if interval_type = 2 then
        (case mk_date (year_of current) (month_of current) 28 of
           Inl e \<Rightarrow> Inl e
         | Inr d28 \<Rightarrow>
             (case add_days d28 4 of
                Inl e \<Rightarrow> Inl e
              | Inr d32 \<Rightarrow>
                  (case mk_date (year_of d32) (month_of d32) 1 of
                     Inl e \<Rightarrow> Inl e
                   | Inr first \<Rightarrow> add_days first (- 1))))
      else if interval_type = 3 then add_days current 6
      else if interval_type = 4 then Inr current
      else Inl ValueError)"

lemma first_of_next_month:
  assumes "1 \<le> y" "1 \<le> m" "m \<le> 12"
  shows "ymd2ord (year_of (ymd2ord y m 28 + 4)) (month_of (ymd2ord y m 28 + 4)) 1
           = ymd2ord y m (days_in_month y m) + 1"
proof (cases "m = 12")
  case True
  have e1: "days_before_year (y + 1) = days_before_year y + (days_before_month y 12 + 31)"
    using dbm_december [of y] by (simp only: dby_step)
  have e2: "days_before_month (y + 1) 1 = 0"
    by (simp add: days_before_month_def month_table_def)
  have e3: "days_in_month y 12 = 31"
    by (simp add: days_in_month_def)
  have b: "ymd2ord y 12 28 + 4 = ymd2ord (y + 1) 1 1"
    by (simp add: ymd2ord_def e1 e2)
  have yo: "year_of (ymd2ord (y + 1) 1 1) = y + 1"
    using assms(1) by (intro year_of_ymd) (simp_all add: days_in_month_def)
  have mo: "month_of (ymd2ord (y + 1) 1 1) = 1"
    using assms(1) by (intro month_of_ymd) (simp_all add: days_in_month_def)
  have "ymd2ord (year_of (ymd2ord y 12 28 + 4)) (month_of (ymd2ord y 12 28 + 4)) 1
          = ymd2ord (y + 1) 1 1"
    by (simp only: b yo mo)
  also have "\<dots> = ymd2ord y 12 (days_in_month y 12) + 1"
    by (simp add: ymd2ord_def e1 e2 e3)
  finally show ?thesis by (simp only: True)
next
  case False
  with assms have m: "1 \<le> m" "m < 12" by simp_all
  let ?d = "32 - days_in_month y m"
  have d: "1 \<le> ?d" "?d \<le> days_in_month y (m + 1)"
    using days_in_month_range [of y m] days_in_month_range [of y "m + 1"] by simp_all
  have b: "ymd2ord y m 28 + 4 = ymd2ord y (m + 1) ?d"
    by (simp add: ymd2ord_def dbm_next [OF m])
  have m1: "1 \<le> m + 1" "m + 1 \<le> 12" using m by simp_all
  have "year_of (ymd2ord y (m + 1) ?d) = y"
    using assms(1) m1 d by (rule year_of_ymd)
  moreover have "month_of (ymd2ord y (m + 1) ?d) = m + 1"
    using assms(1) m1 d by (rule month_of_ymd)
  ultimately show ?thesis
    by (simp add: b) (simp add: ymd2ord_def dbm_next [OF m])
qed

lemma next_date_monthly:
  assumes "next_date 2 c = Inr nd"
  shows "nd = ymd2ord (year_of c) (month_of c) (days_in_month (year_of c) (month_of c))"
proof -
  let ?y = "year_of c" and ?m = "month_of c"
  from assms have y: "1 \<le> ?y"
    by (auto simp: next_date_def mk_date_def split: if_splits sum.splits)
  have m: "1 \<le> ?m" "?m \<le> 12" using month_of_range [of c] by simp_all
  note f = first_of_next_month [OF y m]
  from assms show ?thesis
    by (auto simp: next_date_def mk_date_def add_days_def Let_def f split: if_splits sum.splits)
qed

lemma next_date_ge:
  assumes "next_date t c = Inr nd"
  shows "c \<le> nd"
proof -
  consider "t = 1" | "t = 2" | "t = 3" | "t = 4" | "t \<noteq> 1 \<and> t \<noteq> 2 \<and> t \<noteq> 3 \<and> t \<noteq> 4"
    by blast
  then show ?thesis
  proof cases
    case 1
    with assms have "nd = ymd2ord (year_of c) 12 31"
      by (auto simp: next_date_def mk_date_def split: if_splits)
    then have "nd = days_before_year (year_of c + 1)"
      using dbm_december [of "year_of c"] by (simp add: ymd2ord_def dby_step)
    then show ?thesis using year_of_upper [of c] by simp
  next
    case 2
    with assms have "nd = ymd2ord (year_of c) (month_of c)
                             (days_in_month (year_of c) (month_of c))"
      using next_date_monthly by simp
    then show ?thesis using month_end_upper [of c] by (simp add: ymd2ord_def)
  next
    case 3
    with assms show ?thesis
      by (auto simp: next_date_def add_days_def Let_def split: if_splits)
  next
    case 4
    with assms show ?thesis by (simp add: next_date_def)
  next
    case 5
    with assms show ?thesis by (simp add: next_date_def)
  qed
qed


text \<open>
  The generator \<^verbatim>\<open>get_interval_ranges\<close>: the pairs it yields, in order, and the exception
  that ended it, if one did. An exception of \<open>next_date\<close> comes before the pair of that round
  is yielded, an exception of \<^verbatim>\<open>next_date + timedelta(days=1)\<close> after it. The loop ends because
  the end of a chunk is never before its start.
\<close>

type_synonym chunk = "int \<times> int"

function get_interval_ranges :: "int \<Rightarrow> int \<Rightarrow> int \<Rightarrow> chunk list \<times> exn option" where
  "get_interval_ranges current end_date interval_type =
     (if current \<le> end_date
      then (case next_date interval_type current of
              Inl e \<Rightarrow> ([], Some e)
            | Inr nd \<Rightarrow>
                (case add_days nd 1 of
                   Inl e \<Rightarrow> ([(current, min nd end_date)], Some e)
                 | Inr current' \<Rightarrow>
                     (case get_interval_ranges current' end_date interval_type of
                        (chunks, r) \<Rightarrow> ((current, min nd end_date) # chunks, r))))
      else ([], None))"
  by pat_completeness auto
termination
proof (relation "measure (\<lambda>(current, end_date, interval_type). nat (end_date + 1 - current))")
  show "wf (measure (\<lambda>(current, end_date, interval_type). nat (end_date + 1 - current)))"
    by simp
next
  fix current end_date interval_type :: int and nd current' :: int
  assume le: "current \<le> end_date"
    and nx: "next_date interval_type current = Inr nd"
    and ad: "add_days nd 1 = Inr current'"
  have "current \<le> nd" using nx by (rule next_date_ge)
  moreover have "current' = nd + 1"
    using ad by (auto simp: add_days_def Let_def split: if_splits)
  ultimately show "((current', end_date, interval_type), (current, end_date, interval_type))
      \<in> measure (\<lambda>(current, end_date, interval_type). nat (end_date + 1 - current))"
    using le by simp
qed

declare get_interval_ranges.simps [simp del]

text \<open>
  What the claim asks of the pairs: each pair starts the day after the one before ends; the
  first starts at \<open>S\<close> and the last ends at \<open>E\<close>; in every pair the start is not after the
  end and the end not after \<open>E\<close>; and the days of the pairs, in order, are the days from \<open>S\<close>
  to \<open>E\<close>, each once. \<open>fits\<close> says that the day after the last computed chunk end is still
  a date: \<open>E\<close> is at most 9998-12-31 for yearly, 9999-11-30 for monthly, 9999-12-24 for
  weekly and 9999-12-30 for daily chunks.
\<close>

fun contiguous :: "chunk list \<Rightarrow> bool" where
  "contiguous [] = True"
| "contiguous [c] = True"
| "contiguous (c1 # c2 # cs) = (fst c2 = snd c1 + 1 \<and> contiguous (c2 # cs))"

definition partitions :: "chunk list \<Rightarrow> int \<Rightarrow> int \<Rightarrow> bool" where
  "partitions cs S E =
     (cs \<noteq> [] \<and> fst (hd cs) = S \<and> snd (last cs) = E \<and> contiguous cs
      \<and> list_all (\<lambda>(a, b). a \<le> b \<and> b \<le> E) cs
      \<and> concat (map (\<lambda>(a, b). [a..b]) cs) = [S..E])"

definition fits :: "int \<Rightarrow> int \<Rightarrow> bool" where
  "fits interval_type E =
     (if interval_type = 1 then E \<le> ymd2ord 9998 12 31
      else if interval_type = 2 then E \<le> ymd2ord 9999 11 30
      else if interval_type = 3 then E + 7 \<le> MAXORDINAL
      else E + 1 \<le> MAXORDINAL)"

lemma year_of_le:
  assumes "1 \<le> n" "n \<le> days_before_year (Y + 1)"
  shows "year_of n \<le> Y"
proof (rule ccontr)
  assume "\<not> year_of n \<le> Y"
  then have "Y + 1 \<le> year_of n" by simp
  then have "days_before_year (Y + 1) \<le> days_before_year (year_of n)" by (rule dby_mono)
  with year_of_bounds(1) [OF assms(1)] assms(2) show False by simp
qed

lemma dby_9999: "days_before_year 9999 = 3651694"
  by (simp add: days_before_year_def)

lemma leap_9999: "\<not> is_leap 9999"
  by (simp add: is_leap_def)


lemma add_days_ok: "0 < d + k \<Longrightarrow> d + k \<le> MAXORDINAL \<Longrightarrow> add_days d k = Inr (d + k)"
  by (simp add: add_days_def Let_def)

lemma next_date_yearly_fits:
  assumes "1 \<le> c" "c \<le> E" "E \<le> ymd2ord 9998 12 31"
  shows "\<exists>nd. next_date 1 c = Inr nd \<and> c \<le> nd \<and> add_days nd 1 = Inr (nd + 1)"
proof -
  let ?y = "year_of c"
  have e: "ymd2ord 9998 12 31 = days_before_year 9999"
    by (simp add: ymd2ord_def days_before_year_def days_before_month_def month_table_def
        is_leap_def)
  have y1: "1 \<le> ?y" using assms(1) by (rule year_of_ge_1)
  have "c \<le> days_before_year (9998 + 1)" using assms(2,3) e by simp
  then have y2: "?y \<le> 9998" using assms(1) by (intro year_of_le) simp_all
  let ?nd = "ymd2ord ?y 12 31"
  have nd: "?nd = days_before_year (?y + 1)"
    using dbm_december [of ?y] by (simp add: ymd2ord_def dby_step)
  have "days_before_year (?y + 1) \<le> days_before_year 9999"
    using y2 by (intro dby_mono) simp
  then have ub: "?nd \<le> 3651694" by (simp add: nd dby_9999)
  have lb: "c \<le> ?nd" using year_of_upper [of c] by (simp add: nd)
  have "next_date 1 c = Inr ?nd"
    using y1 y2 by (simp add: next_date_def mk_date_def days_in_month_def)
  moreover have "add_days ?nd 1 = Inr (?nd + 1)"
    using ub lb assms(1) by (intro add_days_ok) (simp_all add: MAXORDINAL_def)
  ultimately show ?thesis using lb by blast
qed

lemma next_date_monthly_fits:
  assumes "1 \<le> c" "c \<le> E" "E \<le> ymd2ord 9999 11 30"
  shows "\<exists>nd. next_date 2 c = Inr nd \<and> c \<le> nd \<and> add_days nd 1 = Inr (nd + 1)"
proof -
  let ?y = "year_of c" and ?m = "month_of c"
  let ?last = "ymd2ord ?y ?m (days_in_month ?y ?m)"
  let ?d28 = "ymd2ord ?y ?m 28"
  let ?d32 = "?d28 + 4"
  have e: "ymd2ord 9999 11 30 = 3652028"
    by (simp add: ymd2ord_def dby_9999 days_before_month_def month_table_def leap_9999)
  have cmax: "c \<le> 3652028" using assms(2,3) e by simp
  have y1: "1 \<le> ?y" using assms(1) by (rule year_of_ge_1)
  have "c \<le> days_before_year (9999 + 1)" using cmax by (simp add: dby_10000)
  then have y2: "?y \<le> 9999" using assms(1) by (intro year_of_le) simp_all
  have m: "1 \<le> ?m" "?m \<le> 12" using month_of_range [of c] by simp_all
  have dim: "28 \<le> days_in_month ?y ?m" "days_in_month ?y ?m \<le> 31"
    using days_in_month_range [of ?y ?m] by simp_all
  have lb: "c \<le> ?last" using month_end_upper [of c] by (simp add: ymd2ord_def)
  have y0: "0 \<le> days_before_year ?y"
    using dby_mono [of 1 ?y] y1 by (simp add: dby_1)
  have bnd: "0 \<le> days_before_month ?y ?m
       \<and> days_before_month ?y ?m + days_in_month ?y ?m \<le> (if is_leap ?y then 366 else 365)"
    using dbm_nonneg_bound [OF m] .
  have last_ub: "?last + 4 \<le> 3652059"
  proof (cases "?y \<le> 9998")
    case True
    have "?last \<le> days_before_year (?y + 1)"
      using bnd by (simp add: ymd2ord_def dby_step split: if_splits)
    also have "\<dots> \<le> days_before_year 9999"
      using True by (intro dby_mono) simp
    finally show ?thesis by (simp add: dby_9999)
  next
    case False
    with y2 have y: "?y = 9999" by simp
    have "?m \<noteq> 12"
    proof
      assume "?m = 12"
      then have "days_before_year 9999 + days_before_month 9999 12 < c"
        using month_start_lower [OF assms(1)] y by simp
      with cmax show False
        by (simp add: dby_9999 days_before_month_def month_table_def leap_9999)
    qed
    with m have m11: "1 \<le> ?m" "?m < 12" by simp_all
    have m1: "1 \<le> ?m + 1" "?m + 1 \<le> 12" using m11 by simp_all
    have "days_before_month ?y (?m + 1) + days_in_month ?y (?m + 1) \<le> 365"
      using dbm_nonneg_bound [OF m1, of ?y] y leap_9999 by simp
    then have "days_before_month ?y ?m + days_in_month ?y ?m \<le> 337"
      using dbm_next [OF m11, of ?y] days_in_month_range [of ?y "?m + 1"] by simp
    then show ?thesis using y by (simp add: ymd2ord_def dby_9999)
  qed
  have last_pos: "0 < ?last" using lb assms(1) by simp
  have d32: "?d32 = ?last + (32 - days_in_month ?y ?m)"
    by (simp add: ymd2ord_def)
  have d32_rng: "0 < ?d32" "?d32 \<le> 3652059"
    using d32 dim last_ub last_pos by simp_all
  have mk1: "mk_date ?y ?m 28 = Inr ?d28"
    using y1 y2 m dim by (simp add: mk_date_def)
  have ad1: "add_days ?d28 4 = Inr ?d32"
    using d32_rng by (intro add_days_ok) (simp_all add: MAXORDINAL_def)
  have y32: "1 \<le> year_of ?d32" using d32_rng(1) by (intro year_of_ge_1) simp
  have "?d32 \<le> days_before_year (9999 + 1)" using d32_rng(2) by (simp add: dby_10000)
  then have y32u: "year_of ?d32 \<le> 9999" using d32_rng(1) by (intro year_of_le) simp_all
  have fn: "ymd2ord (year_of ?d32) (month_of ?d32) 1 = ?last + 1"
    using first_of_next_month [OF y1 m] .
  have mk2: "mk_date (year_of ?d32) (month_of ?d32) 1 = Inr (?last + 1)"
    using y32 y32u month_of_range [of ?d32] days_in_month_range [of "year_of ?d32" "month_of ?d32"]
    by (simp add: mk_date_def fn)
  have ad2: "add_days (?last + 1) (- 1) = Inr ?last"
    using add_days_ok [of "?last + 1" "- 1"] last_pos last_ub by (simp add: MAXORDINAL_def)
  have "next_date 2 c = Inr ?last"
    by (simp add: next_date_def mk1 ad1 mk2 ad2)
  moreover have "add_days ?last 1 = Inr (?last + 1)"
    using last_pos last_ub by (intro add_days_ok) (simp_all add: MAXORDINAL_def)
  ultimately show ?thesis using lb by blast
qed

lemma next_date_fits:
  assumes "1 \<le> c" "c \<le> E" "t = 1 \<or> t = 2 \<or> t = 3 \<or> t = 4" "fits t E"
  shows "\<exists>nd. next_date t c = Inr nd \<and> c \<le> nd \<and> add_days nd 1 = Inr (nd + 1)"
  using assms(3)
proof (elim disjE)
  assume t: "t = 1"
  with assms(4) have "E \<le> ymd2ord 9998 12 31" by (simp add: fits_def)
  from next_date_yearly_fits [OF assms(1,2) this] t show ?thesis by simp
next
  assume t: "t = 2"
  with assms(4) have "E \<le> ymd2ord 9999 11 30" by (simp add: fits_def)
  from next_date_monthly_fits [OF assms(1,2) this] t show ?thesis by simp
next
  assume t: "t = 3"
  with assms(4) have "E + 7 \<le> MAXORDINAL" by (simp add: fits_def)
  with assms(1,2) have "add_days c 6 = Inr (c + 6)" "add_days (c + 6) 1 = Inr (c + 6 + 1)"
    by (simp_all add: add_days_def Let_def)
  with t show ?thesis by (simp add: next_date_def)
next
  assume t: "t = 4"
  with assms(4) have "E + 1 \<le> MAXORDINAL" by (simp add: fits_def)
  with assms(1,2) have "add_days c 1 = Inr (c + 1)"
    by (simp add: add_days_def Let_def)
  with t show ?thesis by (simp add: next_date_def)
qed


lemma upto_append_next:
  "(a::int) \<le> b + 1 \<Longrightarrow> b + 1 \<le> c \<Longrightarrow> [a..b] @ [b + 1..c] = [a..c]"
proof -
  assume "a \<le> b + 1" "b + 1 \<le> c"
  then have "[a..c] = [a..(b + 1) - 1] @ [b + 1..c]"
    by (rule upto_split1)
  then show ?thesis by simp
qed

lemma chunks_partition:
  assumes "1 \<le> c" "c \<le> E" "t = 1 \<or> t = 2 \<or> t = 3 \<or> t = 4" "fits t E"
  shows "\<exists>cs. get_interval_ranges c E t = (cs, None) \<and> partitions cs c E"
  using assms
proof (induction c E t rule: get_interval_ranges.induct)
  case (1 current end_date interval_type)
  from next_date_fits [OF "1.prems"] obtain nd where
    nx: "next_date interval_type current = Inr nd" and ge: "current \<le> nd"
    and ad: "add_days nd 1 = Inr (nd + 1)"
    by blast
  show ?case
  proof (cases "nd + 1 \<le> end_date")
    case True
    have "1 \<le> nd + 1" using ge "1.prems"(1) by simp
    from "1.IH" [OF "1.prems"(2) nx ad this True "1.prems"(3,4)] obtain cs where
      r: "get_interval_ranges (nd + 1) end_date interval_type = (cs, None)"
      and p: "partitions cs (nd + 1) end_date"
      by blast
    have mn: "min nd end_date = nd" using True by simp
    have res: "get_interval_ranges current end_date interval_type = ((current, nd) # cs, None)"
      using "1.prems"(2) by (subst get_interval_ranges.simps) (simp add: nx ad r mn)
    from p obtain x xs where cs: "cs = x # xs" by (cases cs) (auto simp: partitions_def)
    have "[current..nd] @ [nd + 1..end_date] = [current..end_date]"
      using ge True by (intro upto_append_next) simp_all
    with p ge True have "partitions ((current, nd) # cs) current end_date"
      by (simp add: partitions_def cs)
    with res show ?thesis by blast
  next
    case False
    then have "get_interval_ranges (nd + 1) end_date interval_type = ([], None)"
      by (subst get_interval_ranges.simps) simp
    moreover have mn: "min nd end_date = end_date" using False by simp
    ultimately have res: "get_interval_ranges current end_date interval_type
                            = ([(current, end_date)], None)"
      using "1.prems"(2) by (subst get_interval_ranges.simps) (simp add: nx ad)
    have "partitions [(current, end_date)] current end_date"
      using "1.prems"(2) by (simp add: partitions_def)
    with res show ?thesis by blast
  qed
qed

definition ymd_of :: "int \<Rightarrow> int \<times> int \<times> int" where
  "ymd_of n = (year_of n, month_of n, day_of n)"

text \<open>
  Claim C1, as stated, fails at the end of the calendar: the weekly chunk of 9999-12-28 would
  end in year 10000, so \<^verbatim>\<open>current + timedelta(days=6)\<close> raises before any pair is yielded, and
  the monthly chunk of a day in December 9999 raises in the same way.
\<close>

theorem chunking_overflows_at_end_of_calendar:
  "1 \<le> ymd2ord 9999 12 28 \<and> ymd2ord 9999 12 28 \<le> MAXORDINAL
 \<and> get_interval_ranges (ymd2ord 9999 12 28) (ymd2ord 9999 12 28) 3 = ([], Some OverflowError)
 \<and> get_interval_ranges (ymd2ord 9999 12 1) (ymd2ord 9999 12 28) 2 = ([], Some OverflowError)"
  by code_simp

text \<open>
  Claim C1, amended. For dates \<open>S \<le> E\<close> and an interval mode from 1 to 4 such that the day
  after the last computed chunk end is still a date, the generator ends without an
  exception and its pairs are contiguous, do not overlap, cover the days from \<open>S\<close> to \<open>E\<close>
  exactly once, have a start that is not after the end and an end that is not after \<open>E\<close>.
  Monthly chunking of 2024-01-15 to 2024-03-10 yields (2024-01-15, 2024-01-31),
  (2024-02-01, 2024-02-29), (2024-03-01, 2024-03-10).
\<close>

theorem chunks_partition_date_range:
  "(1 \<le> S \<and> S \<le> E \<and> E \<le> MAXORDINAL \<and> (t = 1 \<or> t = 2 \<or> t = 3 \<or> t = 4) \<and> fits t E \<longrightarrow>
      (\<exists>cs. get_interval_ranges S E t = (cs, None) \<and> partitions cs S E))
 \<and> get_interval_ranges (ymd2ord 2024 1 15) (ymd2ord 2024 3 10) 2
     = ([(ymd2ord 2024 1 15, ymd2ord 2024 1 31), (ymd2ord 2024 2 1, ymd2ord 2024 2 29),
         (ymd2ord 2024 3 1, ymd2ord 2024 3 10)], None)
 \<and> map (\<lambda>(a, b). (ymd_of a, ymd_of b))
       (fst (get_interval_ranges (ymd2ord 2024 1 15) (ymd2ord 2024 3 10) 2))
     = [((2024, 1, 15), (2024, 1, 31)), ((2024, 2, 1), (2024, 2, 29)),
        ((2024, 3, 1), (2024, 3, 10))]"
proof (intro conjI impI)
  assume "1 \<le> S \<and> S \<le> E \<and> E \<le> MAXORDINAL \<and> (t = 1 \<or> t = 2 \<or> t = 3 \<or> t = 4) \<and> fits t E"
  then show "\<exists>cs. get_interval_ranges S E t = (cs, None) \<and> partitions cs S E"
    by (intro chunks_partition) simp_all
next
  show "get_interval_ranges (ymd2ord 2024 1 15) (ymd2ord 2024 3 10) 2
     = ([(ymd2ord 2024 1 15, ymd2ord 2024 1 31), (ymd2ord 2024 2 1, ymd2ord 2024 2 29),
         (ymd2ord 2024 3 1, ymd2ord 2024 3 10)], None)"
    by code_simp
next
  show "map (\<lambda>(a, b). (ymd_of a, ymd_of b))
       (fst (get_interval_ranges (ymd2ord 2024 1 15) (ymd2ord 2024 3 10) 2))
     = [((2024, 1, 15), (2024, 1, 31)), ((2024, 2, 1), (2024, 2, 29)),
        ((2024, 3, 1), (2024, 3, 10))]"
    by code_simp
qed

theorem chunks_partition_date_range_witness:
  "1 \<le> ymd2ord 2023 12 30 \<and> ymd2ord 2023 12 30 \<le> ymd2ord 2024 1 20
 \<and> ymd2ord 2024 1 20 \<le> MAXORDINAL \<and> fits 3 (ymd2ord 2024 1 20)
 \<and> (\<exists>cs. get_interval_ranges (ymd2ord 2023 12 30) (ymd2ord 2024 1 20) 3 = (cs, None)
          \<and> partitions cs (ymd2ord 2023 12 30) (ymd2ord 2024 1 20))"
proof -
  have h: "1 \<le> ymd2ord 2023 12 30 \<and> ymd2ord 2023 12 30 \<le> ymd2ord 2024 1 20
      \<and> ymd2ord 2024 1 20 \<le> MAXORDINAL \<and> ((3::int) = 1 \<or> (3::int) = 2 \<or> (3::int) = 3 \<or> (3::int) = 4)
      \<and> fits 3 (ymd2ord 2024 1 20)"
    by code_simp
  from chunks_partition_date_range
         [where S = "ymd2ord 2023 12 30" and E = "ymd2ord 2024 1 20" and t = 3,
          THEN conjunct1, THEN mp, OF h]
  have "\<exists>cs. get_interval_ranges (ymd2ord 2023 12 30) (ymd2ord 2024 1 20) 3 = (cs, None)
          \<and> partitions cs (ymd2ord 2023 12 30) (ymd2ord 2024 1 20)" .
  with h show ?thesis by simp
qed

subsection \<open>Entries, the client and the configuration\<close>

text \<open>
  A media entry with the attributes the report reads. An attribute the platform did not set
  is \<open>None\<close>; calling a method on it (\<^verbatim>\<open>getValue\<close>, \<^verbatim>\<open>replace\<close>, \<^verbatim>\<open>split\<close>) raises
  \<^verbatim>\<open>AttributeError\<close>, passing it to \<^verbatim>\<open>datetime.fromtimestamp\<close> raises \<^verbatim>\<open>TypeError\<close>. A flavor
  asset has its size in kilobytes.
\<close>

record media_entry =
  me_id :: string
  me_name :: string
  me_mediaType :: "int option"
  me_duration :: "int option"
  me_createdAt :: "int option"
  me_updatedAt :: "int option"
  me_lastPlayedAt :: "int option"
  me_plays :: "int option"
  me_categories :: "string option"
  me_tags :: "string option"
  me_userId :: string
  me_flavorParamsIds :: "string option"

record cd_flavor =
  fa_id :: string
  fa_size :: int
  fa_isOriginal :: bool

text \<open>
  What the script calls outside itself. \<open>cd_session_start\<close> is \<^verbatim>\<open>client.session.start\<close>;
  \<open>media_list\<close> is \<^verbatim>\<open>client.media.list(filter, pager)\<close> with the time range of the chunk and
  the page index (the owner, category and tag filters are fixed for a run and are part of how
  the platform answers); then the two flavor-asset calls. \<open>media_types\<close> holds the constants of
  \<^verbatim>\<open>KalturaMediaType\<close> as the reverse dictionary of the script sees them. \<open>local_time_text\<close>
  stands for \<^verbatim>\<open>datetime.fromtimestamp(t, tz=pytz.utc).astimezone(local_tz).strftime(...)\<close> in the
  configured time zone; it raises for an instant outside the years the library covers.
  \<open>day_start_timestamp\<close> and \<open>day_end_timestamp\<close> stand for
  \<^verbatim>\<open>int(datetime.combine(d, time.min).timestamp())\<close> and the same with \<^verbatim>\<open>time.max\<close>, in the time
  zone of the machine. \<open>write_csv\<close> opens the named file and writes the header and the rows.
\<close>

record 'p cd_client =
  cd_session_start :: "'p \<Rightarrow> (exn + string) \<times> 'p"
  media_list :: "'p \<Rightarrow> int \<times> int \<Rightarrow> nat \<Rightarrow> (exn + media_entry list) \<times> 'p"
  cd_flavorAsset_list :: "'p \<Rightarrow> string \<Rightarrow> (exn + cd_flavor list) \<times> 'p"
  cd_flavorAsset_getUrl :: "'p \<Rightarrow> string \<Rightarrow> (exn + string) \<times> 'p"
  media_types :: "int \<rightharpoonup> string"
  local_time_text :: "int \<Rightarrow> exn + string"
  day_start_timestamp :: "int \<Rightarrow> exn + int"
  day_end_timestamp :: "int \<Rightarrow> exn + int"
  write_csv :: "'p \<Rightarrow> string \<Rightarrow> (exn + unit) \<times> 'p"

text \<open>
  The module-level configuration, as it stands when lines 47 to 129 have run.
  \<open>FLAVOR_SIZE\<close> and \<open>FLAVOR_SOURCE_NAME\<close> hold the stripped answers to the two prompts; the
  second is only asked, and only read, when the first is not empty. \<open>PARTNER_ID\<close> is kept as
  the text an f-string prints for it.
\<close>

record cd_config =
  OWNER_ID :: string
  TAG :: string
  CATEGORY_ID :: string
  FLAVOR_SIZE :: string
  FLAVOR_SOURCE_NAME :: string
  EXPORT_CSV :: bool
  PARTNER_ID :: string
  RESTRICTION_INTERVAL :: int

datatype cd_event =
    CallSessionStart
  | CallMediaList "int \<times> int" nat
  | CdCallFlavorList string
  | CdCallGetUrl string
  | PrintQueryRefused
  | PrintTryFinerInterval
  | PrintProcessingPage nat nat
  | PrintFilenameError string string
  | PrintLimitReached
  | PrintMayBeIncomplete
  | PrintTryFinerQuery
  | PrintProcessingChunk int int
  | PrintSummaryRow "int \<times> int" nat
  | PrintTotals nat
  | WriteCsv string
  | PrintCsvCreated string string

type_synonym 'p cd_state = "'p \<times> cd_event list"

text \<open>
  A row of \<^verbatim>\<open>all_entries\<close>. The flavor size is kept in kilobytes; the script stores the text of
  its conversion to megabytes.
\<close>

record detail_row =
  r_entryId :: string
  r_name :: string
  r_media_type :: string
  r_duration_sec :: "int option"
  r_duration :: string
  r_created_at :: string
  r_updated_at :: string
  r_lastplayed_at :: "string option"
  r_plays :: "int option"
  r_categories :: string
  r_tags :: string
  r_owner_id :: string
  r_original_filename :: "string option"
  r_flavor_count :: nat
  r_flavor_size_kb :: int

record fetch_acc =
  entry_count :: nat
  total_duration :: int
  all_entries :: "detail_row list"
  total_flavor_size :: int

text \<open>
  How a computation ends: it returns, the script calls \<^verbatim>\<open>exit(n)\<close>, or an exception leaves it
  uncaught.
\<close>

datatype 'a outcome = Returned 'a | Exit int | Raised exn

subsection \<open>Reading the configuration\<close>

text \<open>
  \<^verbatim>\<open>EXPORT_CSV = bool(getenv("EXPORT_CSV"))\<close>: \<^verbatim>\<open>getenv\<close> gives \<^verbatim>\<open>None\<close> for an unset variable,
  and \<^verbatim>\<open>bool\<close> of a string is whether it is not empty. A prompt is
  \<^verbatim>\<open>input(...).strip()\<close>.
\<close>

definition EXPORT_CSV_of :: "(string \<rightharpoonup> string) \<Rightarrow> bool" where
  "EXPORT_CSV_of env = (case env ''EXPORT_CSV'' of None \<Rightarrow> False | Some v \<Rightarrow> v \<noteq> [])"

definition answer_of :: "string \<Rightarrow> string" where
  "answer_of typed = py_strip typed"

subsection \<open>Texts and numbers of a row\<close>

text \<open>
  \<^verbatim>\<open>str(timedelta(seconds=d))\<close> for an integer \<open>d\<close>: the constructor splits off the days and
  raises \<^verbatim>\<open>OverflowError\<close> when there are more than 999999999 of them in either direction.
\<close>

definition str_int :: "int \<Rightarrow> string" where
  "str_int i = (if i < 0 then ''-'' @ str_nat (nat (- i)) else str_nat (nat i))"

definition pad2 :: "int \<Rightarrow> string" where
  "pad2 i = (if i < 10 then ''0'' @ str_int i else str_int i)"

definition timedelta_str :: "int \<Rightarrow> exn + string" where
  "timedelta_str d =
     (let days = d div 86400; seconds = d mod 86400
      in if \<bar>days\<bar> > 999999999 then Inl OverflowError
         else
           (let mm = seconds div 60; ss = seconds mod 60;
                hh = mm div 60; mm' = mm mod 60;
                hms = str_int hh @ '':'' @ pad2 mm' @ '':'' @ pad2 ss
            in Inr (if days \<noteq> 0
                    then str_int days @ '' day'' @ (if \<bar>days\<bar> \<noteq> 1 then ''s'' else [])
                         @ '', '' @ hms
                    else hms)))"

text \<open>
  \<^verbatim>\<open>a / b\<close> for integers, \<open>b\<close> positive: the quotient is rounded to a double, and
  \<^verbatim>\<open>OverflowError\<close> is raised when that rounding reaches \<open>2 ^ 1024\<close>, that is from
  \<open>2 ^ 1024 - 2 ^ 970\<close> on, half way between the largest double and \<open>2 ^ 1024\<close>.
\<close>

definition DBL_OVERFLOW :: int where
  "DBL_OVERFLOW = 2 ^ 1024 - 2 ^ 970"

definition float_div_overflows :: "int \<Rightarrow> int \<Rightarrow> bool" where
  "float_div_overflows a b = (b * DBL_OVERFLOW \<le> \<bar>a\<bar>)"

lemma DBL_OVERFLOW_large: "2 ^ 970 \<le> DBL_OVERFLOW"
proof -
  have "(2::int) ^ 1024 = 2 ^ 54 * 2 ^ 970" by (simp add: power_add [symmetric])
  moreover have "(2::int) \<le> 2 ^ 54" by simp
  ultimately have "2 * (2::int) ^ 970 \<le> 2 ^ 1024" by simp
  then show ?thesis by (simp add: DBL_OVERFLOW_def)
qed

lemma small_does_not_overflow:
  assumes "\<bar>a\<bar> < 2 ^ 64" "1 \<le> b"
  shows "\<not> float_div_overflows a b"
proof -
  have "(2::int) ^ 64 \<le> 2 ^ 970" by (rule power_increasing) simp_all
  then have "\<bar>a\<bar> < DBL_OVERFLOW" using assms(1) DBL_OVERFLOW_large by linarith
  moreover have "DBL_OVERFLOW \<le> b * DBL_OVERFLOW"
    using assms(2) DBL_OVERFLOW_large by (simp add: mult_le_cancel_right1)
  ultimately show ?thesis by (simp add: float_div_overflows_def)
qed

subsection \<open>Per-entry enrichment and the detail row\<close>

text \<open>
  \<^verbatim>\<open>re.search(r"/fileName/([^/]+)/", url)\<close>: the first place where \<^verbatim>\<open>/fileName/\<close> is followed by
  a non-empty run of characters other than a slash and then a slash; the run is the group.
\<close>

fun search_fileName :: "string \<Rightarrow> string option" where
  "search_fileName [] = None"
| "search_fileName (c # cs) =
     (if take 10 (c # cs) = ''/fileName/''
      then (let rest = drop 10 (c # cs);
                g = takeWhile (\<lambda>x. x \<noteq> CHR ''/'') rest
            in if g \<noteq> [] \<and> drop (length g) rest \<noteq> [] then Some g
               else search_fileName cs)
      else search_fileName cs)"

text \<open>
  The body of the loop over the entries of a page, up to the row: original file name, flavor
  count and flavor size sum. With \<open>FLAVOR_SIZE\<close> set, every exception of the two calls is
  caught and printed, and what was assigned before it stays; without it the count is the
  number of pieces of \<^verbatim>\<open>flavorParamsIds.split(',')\<close>, no call is made, and a missing
  \<^verbatim>\<open>flavorParamsIds\<close> raises outside any \<^verbatim>\<open>try\<close>.
\<close>

definition enrich ::
  "'p cd_client \<Rightarrow> cd_config \<Rightarrow> media_entry \<Rightarrow> 'p cd_state
     \<Rightarrow> (exn + string option \<times> nat \<times> int) \<times> 'p cd_state" where
  "enrich cl cfg e s =
     (if FLAVOR_SIZE cfg \<noteq> []
      then
        (case cd_flavorAsset_list cl (fst s) (me_id e) of
           (Inl x, p1) \<Rightarrow>
             (Inr (None, 0, 0),
              (p1, snd s @ [CdCallFlavorList (me_id e), PrintFilenameError (me_id e) (exn_str x)]))
         | (Inr flavors, p1) \<Rightarrow>
             (let flavor_count = length flavors;
                  flavor_size_sum = sum_list (map fa_size flavors);
                  tr1 = snd s @ [CdCallFlavorList (me_id e)]
              in case find fa_isOriginal flavors of
                   None \<Rightarrow> (Inr (None, flavor_count, flavor_size_sum), (p1, tr1))
                 | Some source_flavor \<Rightarrow>
                     if FLAVOR_SOURCE_NAME cfg = []
                     then (Inr (None, flavor_count, flavor_size_sum), (p1, tr1))
                     else
                       (case cd_flavorAsset_getUrl cl p1 (fa_id source_flavor) of
                          (Inl x, p2) \<Rightarrow>
                            (Inr (None, flavor_count, flavor_size_sum),
                             (p2, tr1 @ [CdCallGetUrl (fa_id source_flavor),
                                         PrintFilenameError (me_id e) (exn_str x)]))
                        | (Inr url, p2) \<Rightarrow>
                            (Inr (map_option clean_filename (search_fileName url),
                                  flavor_count, flavor_size_sum),
                             (p2, tr1 @ [CdCallGetUrl (fa_id source_flavor)])))))
      else
        (case me_flavorParamsIds e of
           None \<Rightarrow> (Inl AttributeError, s)
         | Some ids \<Rightarrow> (Inr (None, length (filter (\<lambda>c. c = CHR '','') ids) + 1, 0), s)))"

text \<open>
  The row appended to \<^verbatim>\<open>all_entries\<close>, its fields computed in the order of the dictionary
  display; the first exception ends it. \<^verbatim>\<open>media_types[entry.mediaType.getValue()]\<close> raises
  \<^verbatim>\<open>KeyError\<close> for a value that is no constant of the enumeration. The duration text is
  \<^verbatim>\<open>0:00:00\<close> for a duration that is \<^verbatim>\<open>None\<close> or 0. The last field divides the flavor size
  sum by 1024.
\<close>

definition duration_text :: "int option \<Rightarrow> exn + string" where
  "duration_text d =
     (case d of None \<Rightarrow> Inr ''0:00:00''
      | Some n \<Rightarrow> if n = 0 then Inr ''0:00:00'' else timedelta_str n)"

definition time_text :: "'p cd_client \<Rightarrow> int option \<Rightarrow> exn + string" where
  "time_text cl t = (case t of None \<Rightarrow> Inl TypeError | Some n \<Rightarrow> local_time_text cl n)"

definition semicolons :: "string \<Rightarrow> string" where
  "semicolons s = map (\<lambda>c. if c = CHR '','' then CHR '';'' else c) s"

definition build_row ::
  "'p cd_client \<Rightarrow> media_entry \<Rightarrow> string option \<times> nat \<times> int \<Rightarrow> exn + detail_row" where
  "build_row cl e enriched =
     (case enriched of (original_filename, flavor_count, flavor_size_sum) \<Rightarrow>
      case me_mediaType e of None \<Rightarrow> Inl AttributeError | Some media_type \<Rightarrow>
      case media_types cl media_type of None \<Rightarrow> Inl KeyError | Some label \<Rightarrow>
      case duration_text (me_duration e) of Inl x \<Rightarrow> Inl x | Inr duration \<Rightarrow>
      case time_text cl (me_createdAt e) of Inl x \<Rightarrow> Inl x | Inr created_at \<Rightarrow>
      case time_text cl (me_updatedAt e) of Inl x \<Rightarrow> Inl x | Inr updated_at \<Rightarrow>
      case (case me_lastPlayedAt e of None \<Rightarrow> Inr None
            | Some t \<Rightarrow> map_sum id Some (local_time_text cl t)) of
        Inl x \<Rightarrow> Inl x | Inr lastplayed_at \<Rightarrow>
      case me_categories e of None \<Rightarrow> Inl AttributeError | Some categories \<Rightarrow>
      case me_tags e of None \<Rightarrow> Inl AttributeError | Some tags \<Rightarrow>
      if float_div_overflows flavor_size_sum 1024 then Inl OverflowError
      else
        Inr \<lparr> r_entryId = me_id e, r_name = me_name e, r_media_type = label,
              r_duration_sec = me_duration e, r_duration = duration,
              r_created_at = created_at, r_updated_at = updated_at,
              r_lastplayed_at = lastplayed_at, r_plays = me_plays e,
              r_categories = semicolons categories, r_tags = semicolons tags,
              r_owner_id = me_userId e, r_original_filename = original_filename,
              r_flavor_count = flavor_count, r_flavor_size_kb = flavor_size_sum \<rparr>)"

text \<open>
  The loop over the entries of a page: enrichment, row, then the three sums. An exception
  leaves the loop before the entry is counted.
\<close>

fun process_page ::
  "'p cd_client \<Rightarrow> cd_config \<Rightarrow> media_entry list \<Rightarrow> fetch_acc \<Rightarrow> 'p cd_state
     \<Rightarrow> (exn + fetch_acc) \<times> 'p cd_state" where
  "process_page cl cfg [] acc s = (Inr acc, s)"
| "process_page cl cfg (e # es) acc s =
     (case enrich cl cfg e s of
        (Inl x, s1) \<Rightarrow> (Inl x, s1)
      | (Inr enriched, s1) \<Rightarrow>
          (case build_row cl e enriched of
             Inl x \<Rightarrow> (Inl x, s1)
           | Inr row \<Rightarrow>
               process_page cl cfg es
                 \<lparr> entry_count = entry_count acc + 1,
                   total_duration = total_duration acc
                                      + (case me_duration e of None \<Rightarrow> 0 | Some d \<Rightarrow> d),
                   all_entries = all_entries acc @ [row],
                   total_flavor_size = total_flavor_size acc + snd (snd enriched) \<rparr> s1))"

lemma process_page_count:
  "process_page cl cfg es acc s = (Inr acc', s') \<Longrightarrow>
     entry_count acc' = entry_count acc + length es"
proof (induction es arbitrary: acc s)
  case Nil
  then show ?case by simp
next
  case (Cons e es)
  then show ?case
    by (auto split: prod.splits sum.splits)
qed

subsection \<open>The query of one chunk\<close>

text \<open>
  \<^verbatim>\<open>fetch_entries_for_interval\<close>: the \<^verbatim>\<open>while True\<close> loop over the pages. A
  \<open>KalturaException\<close> whose code is \<^verbatim>\<open>QUERY_EXCEEDED_MAX_MATCHES_ALLOWED\<close> prints two lines
  and exits with status 1, any other exception is raised again. An empty page ends the loop.
  After a page the count is compared with 10000. The loop ends because every page that does
  not end it adds at least one entry to a count that stays below 10000.
\<close>

definition QUERY_EXCEEDED :: string where
  "QUERY_EXCEEDED = ''QUERY_EXCEEDED_MAX_MATCHES_ALLOWED''"

function fetch_loop ::
  "'p cd_client \<Rightarrow> cd_config \<Rightarrow> int \<times> int \<Rightarrow> nat \<Rightarrow> fetch_acc \<Rightarrow> 'p cd_state
     \<Rightarrow> fetch_acc outcome \<times> 'p cd_state" where
  "fetch_loop cl cfg ts pageIndex acc s =
     (case media_list cl (fst s) ts pageIndex of
        (Inl x, p1) \<Rightarrow>
          (case x of
             KalturaException code \<Rightarrow>
               if code = QUERY_EXCEEDED
               then (Exit 1, (p1, snd s @ [CallMediaList ts pageIndex, PrintQueryRefused,
                                         PrintTryFinerInterval]))
               else (Raised x, (p1, snd s @ [CallMediaList ts pageIndex]))
           | _ \<Rightarrow> (Raised x, (p1, snd s @ [CallMediaList ts pageIndex])))
      | (Inr objs, p1) \<Rightarrow>
          if objs = [] then (Returned acc, (p1, snd s @ [CallMediaList ts pageIndex]))
          else
            (case process_page cl cfg objs acc
                    (p1, snd s @ [CallMediaList ts pageIndex,
                                  PrintProcessingPage pageIndex (length objs)]) of
               (Inl x, s2) \<Rightarrow> (Raised x, s2)
             | (Inr acc', s2) \<Rightarrow>
                 if entry_count acc' \<ge> 10000
                 then (Exit 1, (fst s2, snd s2 @ [PrintLimitReached, PrintMayBeIncomplete,
                                                 PrintTryFinerQuery]))
                 else fetch_loop cl cfg ts (pageIndex + 1) acc' s2))"
  by pat_completeness auto
termination
proof (relation "measure (\<lambda>(cl, cfg, ts, pageIndex, acc, s). 10000 - entry_count acc)")
  show "wf (measure (\<lambda>(cl, cfg, ts, pageIndex, acc, s). 10000 - entry_count acc))" by simp
next
  fix cl :: "'p cd_client" and cfg ts pageIndex acc and s :: "'p cd_state"
    and x y x2 xa ya x2a
  assume "(x, y) = media_list cl (fst s) ts pageIndex" "x = Inr x2" "x2 \<noteq> []"
    "(xa, ya) = process_page cl cfg x2 acc
        (y, snd s @ [CallMediaList ts pageIndex, PrintProcessingPage pageIndex (length x2)])"
    "xa = Inr x2a" "\<not> 10000 \<le> entry_count x2a"
  then have "entry_count x2a = entry_count acc + length x2"
    using process_page_count [of cl cfg x2 acc _ x2a ya] by simp
  with \<open>x2 \<noteq> []\<close> \<open>\<not> 10000 \<le> entry_count x2a\<close>
  show "((cl, cfg, ts, pageIndex + 1, x2a, ya), cl, cfg, ts, pageIndex, acc, s)
          \<in> measure (\<lambda>(cl, cfg, ts, pageIndex, acc, s). 10000 - entry_count acc)"
    by (cases x2) auto
qed

declare fetch_loop.simps [simp del]

text \<open>
  \<^verbatim>\<open>fetch_entries_for_interval\<close> is called with the first instant of the first day of the
  chunk and the last instant of its last day, and starts by taking the timestamps of both
  for the filter.
\<close>

definition fetch_entries_for_interval ::
  "'p cd_client \<Rightarrow> cd_config \<Rightarrow> int \<times> int \<Rightarrow> 'p cd_state \<Rightarrow> fetch_acc outcome \<times> 'p cd_state" where
  "fetch_entries_for_interval cl cfg days s =
     (case day_start_timestamp cl (fst days) of
        Inl x \<Rightarrow> (Raised x, s)
      | Inr start_ts \<Rightarrow>
          (case day_end_timestamp cl (snd days) of
             Inl x \<Rightarrow> (Raised x, s)
           | Inr end_ts \<Rightarrow>
               fetch_loop cl cfg (start_ts, end_ts) 1
                 \<lparr> entry_count = 0, total_duration = 0, all_entries = [],
                   total_flavor_size = 0 \<rparr> s))"

fun is_media_list :: "cd_event \<Rightarrow> bool" where
  "is_media_list (CallMediaList ts i) = True"
| "is_media_list ev = False"

fun is_cd_flavor_list :: "cd_event \<Rightarrow> bool" where
  "is_cd_flavor_list (CdCallFlavorList i) = True"
| "is_cd_flavor_list ev = False"

fun is_cd_get_url :: "cd_event \<Rightarrow> bool" where
  "is_cd_get_url (CdCallGetUrl i) = True"
| "is_cd_get_url ev = False"

text \<open>
  Clients and data to run the query on. Every client here counts a day as 86400 seconds from
  day 719163 (1970-01-01) and prints every instant as the same text. \<open>refusing_client\<close>
  answers every list call with the max-matches error, \<open>single_entry_client\<close> answers every
  list call with a page of one video entry that has an original flavor asset of 2048
  kilobytes, \<open>one_page_client\<close> answers the first page with that entry and every later page
  with none.
\<close>

definition sample_entry :: media_entry where
  "sample_entry =
     \<lparr> me_id = ''1_abc'', me_name = ''Lecture'', me_mediaType = Some 1,
       me_duration = Some 3600, me_createdAt = Some 1704103200,
       me_updatedAt = Some 1704106800, me_lastPlayedAt = None, me_plays = Some 7,
       me_categories = Some ''a,b'', me_tags = Some ''x,y'', me_userId = ''owner'',
       me_flavorParamsIds = Some ''0,487041'' \<rparr>"

definition refusing_client :: "unit cd_client" where
  "refusing_client =
     \<lparr> cd_session_start = (\<lambda>p. (Inr ''ks'', p)),
       media_list = (\<lambda>p ts i. (Inl (KalturaException QUERY_EXCEEDED), p)),
       cd_flavorAsset_list = (\<lambda>p i. (Inr [], p)),
       cd_flavorAsset_getUrl = (\<lambda>p i. (Inr [], p)),
       media_types = [1 \<mapsto> ''VIDEO'', 2 \<mapsto> ''IMAGE'', 5 \<mapsto> ''AUDIO''],
       local_time_text = (\<lambda>t. Inr ''2024-01-01 02:00:00''),
       day_start_timestamp = (\<lambda>d. Inr ((d - 719163) * 86400)),
       day_end_timestamp = (\<lambda>d. Inr ((d - 719163) * 86400 + 86399)),
       write_csv = (\<lambda>p name. (Inr (), p)) \<rparr>"

definition single_entry_client :: "unit cd_client" where
  "single_entry_client =
     \<lparr> cd_session_start = (\<lambda>p. (Inr ''ks'', p)),
       media_list = (\<lambda>p ts i. (Inr [sample_entry], p)),
       cd_flavorAsset_list =
         (\<lambda>p i. (Inr [\<lparr> fa_id = ''0_web'', fa_size = 512, fa_isOriginal = False \<rparr>,
                       \<lparr> fa_id = ''0_src'', fa_size = 2048, fa_isOriginal = True \<rparr>], p)),
       cd_flavorAsset_getUrl =
         (\<lambda>p i. (Inr ''https://cdn/p/1/fileName/Lecture_1_(Source).mp4/name/a.mp4'', p)),
       media_types = [1 \<mapsto> ''VIDEO'', 2 \<mapsto> ''IMAGE'', 5 \<mapsto> ''AUDIO''],
       local_time_text = (\<lambda>t. Inr ''2024-01-01 02:00:00''),
       day_start_timestamp = (\<lambda>d. Inr ((d - 719163) * 86400)),
       day_end_timestamp = (\<lambda>d. Inr ((d - 719163) * 86400 + 86399)),
       write_csv = (\<lambda>p name. (Inr (), p)) \<rparr>"

definition one_page_client :: "unit cd_client" where
  "one_page_client =
     \<lparr> cd_session_start = (\<lambda>p. (Inr ''ks'', p)),
       media_list = (\<lambda>p ts i. (Inr (if i = 1 then [sample_entry] else []), p)),
       cd_flavorAsset_list = (\<lambda>p i. (Inr [], p)),
       cd_flavorAsset_getUrl = (\<lambda>p i. (Inr [], p)),
       media_types = [1 \<mapsto> ''VIDEO'', 2 \<mapsto> ''IMAGE'', 5 \<mapsto> ''AUDIO''],
       local_time_text = (\<lambda>t. Inr ''2024-01-01 02:00:00''),
       day_start_timestamp = (\<lambda>d. Inr ((d - 719163) * 86400)),
       day_end_timestamp = (\<lambda>d. Inr ((d - 719163) * 86400 + 86399)),
       write_csv = (\<lambda>p name. (Inr (), p)) \<rparr>"

definition plain_config :: cd_config where
  "plain_config =
     \<lparr> OWNER_ID = [], TAG = [], CATEGORY_ID = [], FLAVOR_SIZE = [], FLAVOR_SOURCE_NAME = [],
       EXPORT_CSV = False, PARTNER_ID = ''123'', RESTRICTION_INTERVAL = 2 \<rparr>"

definition sample_row :: detail_row where
  "sample_row =
     \<lparr> r_entryId = ''1_abc'', r_name = ''Lecture'', r_media_type = ''VIDEO'',
       r_duration_sec = Some 3600, r_duration = ''1:00:00'',
       r_created_at = ''2024-01-01 02:00:00'', r_updated_at = ''2024-01-01 02:00:00'',
       r_lastplayed_at = None, r_plays = Some 7, r_categories = ''a;b'',
       r_tags = ''x;y'', r_owner_id = ''owner'', r_original_filename = None,
       r_flavor_count = 2, r_flavor_size_kb = 0 \<rparr>"

lemma duration_text_3600: "duration_text (Some 3600) = Inr ''1:00:00''"
  by code_simp

lemma no_overflow_0: "\<not> float_div_overflows 0 1024"
  by (rule small_does_not_overflow) simp_all

lemma build_row_sample:
  "build_row single_entry_client sample_entry (None, 2, 0) = Inr sample_row"
  by (simp add: build_row_def sample_entry_def single_entry_client_def time_text_def
      duration_text_3600 no_overflow_0 semicolons_def sample_row_def)

lemma enrich_sample:
  "enrich single_entry_client plain_config sample_entry s = (Inr (None, 2, 0), s)"
  by (simp add: enrich_def plain_config_def sample_entry_def)

lemma fetch_loop_returns_below_limit:
  "fetch_loop cl cfg ts pageIndex acc s = (Returned r, s') \<Longrightarrow> entry_count acc < 10000
     \<Longrightarrow> entry_count r < 10000"
proof (induction cl cfg ts pageIndex acc s rule: fetch_loop.induct)
  case (1 cl cfg ts pageIndex acc s)
  obtain res p1 where ml: "media_list cl (fst s) ts pageIndex = (res, p1)"
    by (cases "media_list cl (fst s) ts pageIndex")
  show ?case
  proof (cases res)
    case (Inl x)
    with ml "1.prems"(1) show ?thesis
      by (subst (asm) fetch_loop.simps) (auto split: exn.splits if_splits)
  next
    case (Inr objs)
    show ?thesis
    proof (cases "objs = []")
      case True
      with ml Inr "1.prems" show ?thesis
        by (subst (asm) fetch_loop.simps) auto
    next
      case False
      obtain pr s2 where pp: "process_page cl cfg objs acc
          (p1, snd s @ [CallMediaList ts pageIndex, PrintProcessingPage pageIndex (length objs)])
          = (pr, s2)"
        by (cases "process_page cl cfg objs acc
          (p1, snd s @ [CallMediaList ts pageIndex, PrintProcessingPage pageIndex (length objs)])")
      show ?thesis
      proof (cases pr)
        case (Inl x)
        with ml Inr False pp "1.prems"(1) show ?thesis
          by (subst (asm) fetch_loop.simps) auto
      next
        case (Inr acc')
        show ?thesis
        proof (cases "10000 \<le> entry_count acc'")
          case True
          with ml \<open>res = Inr objs\<close> False pp Inr "1.prems"(1) show ?thesis
            by (subst (asm) fetch_loop.simps) auto
        next
          case below: False
          with ml \<open>res = Inr objs\<close> False pp Inr "1.prems"(1)
          have "fetch_loop cl cfg ts (pageIndex + 1) acc' s2 = (Returned r, s')"
            by (subst (asm) fetch_loop.simps) auto
          moreover have "entry_count acc' < 10000" using below by simp
          ultimately show ?thesis
            using "1.IH" [OF ml [symmetric] \<open>res = Inr objs\<close> False pp [symmetric] Inr below]
            by simp
        qed
      qed
    qed
  qed
qed

lemma fetch_loop_query_exceeded:
  assumes "media_list cl (fst s) ts pageIndex = (Inl (KalturaException QUERY_EXCEEDED), p1)"
  shows "fetch_loop cl cfg ts pageIndex acc s
           = (Exit 1, (p1, snd s @ [CallMediaList ts pageIndex, PrintQueryRefused,
                                    PrintTryFinerInterval]))"
  using assms by (subst fetch_loop.simps) simp

lemma fetch_loop_limit_reached:
  assumes "media_list cl (fst s) ts pageIndex = (Inr objs, p1)" and "objs \<noteq> []"
      and "process_page cl cfg objs acc
             (p1, snd s @ [CallMediaList ts pageIndex, PrintProcessingPage pageIndex (length objs)])
           = (Inr acc', s2)"
      and "10000 \<le> entry_count acc'"
  shows "fetch_loop cl cfg ts pageIndex acc s
           = (Exit 1, (fst s2, snd s2 @ [PrintLimitReached, PrintMayBeIncomplete,
                                         PrintTryFinerQuery]))"
  using assms by (subst fetch_loop.simps) simp

lemma fetch_loop_empty_page:
  assumes "media_list cl (fst s) ts pageIndex = (Inr [], p1)"
  shows "fetch_loop cl cfg ts pageIndex acc s
           = (Returned acc, (p1, snd s @ [CallMediaList ts pageIndex]))"
  using assms by (subst fetch_loop.simps) simp

lemma fetch_loop_next_page:
  assumes "media_list cl (fst s) ts pageIndex = (Inr objs, p1)" and "objs \<noteq> []"
      and "process_page cl cfg objs acc
             (p1, snd s @ [CallMediaList ts pageIndex, PrintProcessingPage pageIndex (length objs)])
           = (Inr acc', s2)"
      and "entry_count acc' < 10000"
  shows "fetch_loop cl cfg ts pageIndex acc s = fetch_loop cl cfg ts (pageIndex + 1) acc' s2"
  using assms by (subst fetch_loop.simps) simp

lemma fetch_loop_raises:
  assumes "media_list cl (fst s) ts pageIndex = (Inr objs, p1)" and "objs \<noteq> []"
      and "process_page cl cfg objs acc
             (p1, snd s @ [CallMediaList ts pageIndex, PrintProcessingPage pageIndex (length objs)])
           = (Inl x, s2)"
  shows "fetch_loop cl cfg ts pageIndex acc s = (Raised x, s2)"
  using assms by (subst fetch_loop.simps) simp

subsection \<open>The match ceiling ends the run\<close>

text \<open>
  Claim C3. At any page of any chunk query: when the list call raises the max-matches error,
  the query ends with exit status 1 after printing the refusal and the guidance, and the
  failed call is the last one issued; when a page brings the count of the chunk to 10000 or
  more, the query ends with exit status 1 after printing the three lines of the truncation
  warning. A chunk query never returns a count of 10000 or more.
\<close>

theorem match_ceiling_exits_with_status_1:
  "(media_list cl (fst s) ts pageIndex = (Inl (KalturaException QUERY_EXCEEDED), p1) \<longrightarrow>
      fetch_loop cl cfg ts pageIndex acc s
        = (Exit 1, (p1, snd s @ [CallMediaList ts pageIndex, PrintQueryRefused,
                                 PrintTryFinerInterval])))
 \<and> (media_list cl (fst s) ts pageIndex = (Inr objs, p2) \<and> objs \<noteq> []
      \<and> process_page cl cfg objs acc
            (p2, snd s @ [CallMediaList ts pageIndex, PrintProcessingPage pageIndex (length objs)])
          = (Inr acc', s2)
      \<and> 10000 \<le> entry_count acc' \<longrightarrow>
      fetch_loop cl cfg ts pageIndex acc s
        = (Exit 1, (fst s2, snd s2 @ [PrintLimitReached, PrintMayBeIncomplete,
                                      PrintTryFinerQuery])))
 \<and> (fetch_entries_for_interval cl cfg days s0 = (Returned r, s') \<longrightarrow> entry_count r < 10000)"
proof (intro conjI impI)
  assume "media_list cl (fst s) ts pageIndex = (Inl (KalturaException QUERY_EXCEEDED), p1)"
  then show "fetch_loop cl cfg ts pageIndex acc s
        = (Exit 1, (p1, snd s @ [CallMediaList ts pageIndex, PrintQueryRefused,
                                 PrintTryFinerInterval]))"
    by (rule fetch_loop_query_exceeded)
next
  assume "media_list cl (fst s) ts pageIndex = (Inr objs, p2) \<and> objs \<noteq> []
      \<and> process_page cl cfg objs acc
            (p2, snd s @ [CallMediaList ts pageIndex, PrintProcessingPage pageIndex (length objs)])
          = (Inr acc', s2)
      \<and> 10000 \<le> entry_count acc'"
  then show "fetch_loop cl cfg ts pageIndex acc s
        = (Exit 1, (fst s2, snd s2 @ [PrintLimitReached, PrintMayBeIncomplete,
                                      PrintTryFinerQuery]))"
    by (intro fetch_loop_limit_reached [where ?p1.0 = p2 and objs = objs and acc' = acc']) simp_all
next
  assume "fetch_entries_for_interval cl cfg days s0 = (Returned r, s')"
  then obtain ts where
    "fetch_loop cl cfg ts 1
       \<lparr> entry_count = 0, total_duration = 0, all_entries = [], total_flavor_size = 0 \<rparr> s0
     = (Returned r, s')"
    by (auto simp: fetch_entries_for_interval_def split: sum.splits)
  then show "entry_count r < 10000"
    by (rule fetch_loop_returns_below_limit) simp
qed

theorem match_ceiling_exits_with_status_1_witness:
  "fetch_loop refusing_client plain_config (0, 86399) 1
       \<lparr> entry_count = 0, total_duration = 0, all_entries = [], total_flavor_size = 0 \<rparr>
       ((), [])
     = (Exit 1, ((), [CallMediaList (0, 86399) 1, PrintQueryRefused, PrintTryFinerInterval]))
 \<and> fetch_loop single_entry_client plain_config (0, 86399) 20
       \<lparr> entry_count = 9999, total_duration = 0, all_entries = [], total_flavor_size = 0 \<rparr>
       ((), [])
     = (Exit 1, ((), [CallMediaList (0, 86399) 20, PrintProcessingPage 20 1,
                      PrintLimitReached, PrintMayBeIncomplete, PrintTryFinerQuery]))
 \<and> fetch_entries_for_interval one_page_client plain_config (719163, 719163) ((), [])
     = (Returned \<lparr> entry_count = 1, total_duration = 3600, all_entries = [sample_row],
                   total_flavor_size = 0 \<rparr>,
        ((), [CallMediaList (0, 86399) 1, PrintProcessingPage 1 1,
              CallMediaList (0, 86399) 2]))
 \<and> (1::nat) < 10000"
proof -
  let ?zero = "\<lparr> entry_count = 0, total_duration = 0, all_entries = [],
                total_flavor_size = 0 \<rparr>"
  let ?full = "\<lparr> entry_count = 9999, total_duration = 0, all_entries = [],
               total_flavor_size = 0 \<rparr>"
  let ?one = "\<lparr> entry_count = 1, total_duration = 3600, all_entries = [sample_row],
                total_flavor_size = 0 \<rparr>"
  have a: "media_list refusing_client (fst ((), [])) (0, 86399) 1
             = (Inl (KalturaException QUERY_EXCEEDED), ())"
    by (simp add: refusing_client_def)
  have b: "media_list single_entry_client (fst ((), [])) (0, 86399) 20 = (Inr [sample_entry], ())"
    by (simp add: single_entry_client_def)
  have c: "process_page single_entry_client plain_config [sample_entry] ?full
             ((), snd ((), []) @ [CallMediaList (0, 86399) 20,
                                  PrintProcessingPage 20 (length [sample_entry])])
           = (Inr \<lparr> entry_count = 10000, total_duration = 3600, all_entries = [sample_row],
                    total_flavor_size = 0 \<rparr>,
              ((), [CallMediaList (0, 86399) 20, PrintProcessingPage 20 1]))"
    by (simp add: enrich_sample build_row_sample) (simp add: sample_entry_def)
  have e1: "enrich one_page_client plain_config sample_entry s = (Inr (None, 2, 0), s)" for s
    by (simp add: enrich_def plain_config_def sample_entry_def)
  have e2: "build_row one_page_client sample_entry (None, 2, 0) = Inr sample_row"
    by (simp add: build_row_def sample_entry_def one_page_client_def time_text_def
        duration_text_3600 no_overflow_0 semicolons_def sample_row_def)
  have pp1: "process_page one_page_client plain_config [sample_entry] ?zero
               ((), snd ((), []) @ [CallMediaList (0, 86399) 1,
                                    PrintProcessingPage 1 (length [sample_entry])])
             = (Inr ?one, ((), [CallMediaList (0, 86399) 1, PrintProcessingPage 1 1]))"
    by (simp add: e1 e2) (simp add: sample_entry_def)
  have p1: "fetch_loop one_page_client plain_config (0, 86399) 1 ?zero ((), [])
            = fetch_loop one_page_client plain_config (0, 86399) (1 + 1) ?one
                ((), [CallMediaList (0, 86399) 1, PrintProcessingPage 1 1])"
    by (rule fetch_loop_next_page [where objs = "[sample_entry]" and ?p1.0 = "()", OF _ _ pp1])
       (simp_all add: one_page_client_def)
  have p2: "fetch_loop one_page_client plain_config (0, 86399) (1 + 1) ?one
              ((), [CallMediaList (0, 86399) 1, PrintProcessingPage 1 1])
            = (Returned ?one,
               ((), snd ((), [CallMediaList (0, 86399) 1, PrintProcessingPage 1 1])
                      @ [CallMediaList (0, 86399) (1 + 1)]))"
    by (rule fetch_loop_empty_page) (simp add: one_page_client_def)
  have ts: "day_start_timestamp one_page_client (fst (719163, 719163)) = Inr 0"
    "day_end_timestamp one_page_client (snd (719163, 719163)) = Inr 86399"
    by (simp_all add: one_page_client_def)
  have d: "fetch_entries_for_interval one_page_client plain_config (719163, 719163) ((), [])
             = (Returned ?one, ((), [CallMediaList (0, 86399) 1, PrintProcessingPage 1 1,
                                      CallMediaList (0, 86399) 2]))"
    unfolding fetch_entries_for_interval_def ts sum.case p1 p2 by simp
  note t = match_ceiling_exits_with_status_1
  have g1: "fetch_loop refusing_client plain_config (0, 86399) 1 ?zero ((), [])
     = (Exit 1, ((), [CallMediaList (0, 86399) 1, PrintQueryRefused, PrintTryFinerInterval]))"
    using t [where cl = refusing_client and s = "((), [])" and ts = "(0, 86399)"
               and pageIndex = 1 and ?p1.0 = "()" and cfg = plain_config and acc = ?zero,
             THEN conjunct1, THEN mp, OF a]
    by simp
  have g2: "fetch_loop single_entry_client plain_config (0, 86399) 20 ?full ((), [])
     = (Exit 1, ((), [CallMediaList (0, 86399) 20, PrintProcessingPage 20 1,
                      PrintLimitReached, PrintMayBeIncomplete, PrintTryFinerQuery]))"
    using t [where cl = single_entry_client and s = "((), [])" and ts = "(0, 86399)"
               and pageIndex = 20 and objs = "[sample_entry]" and ?p2.0 = "()"
               and cfg = plain_config and acc = ?full
               and acc' = "\<lparr> entry_count = 10000, total_duration = 3600,
                              all_entries = [sample_row], total_flavor_size = 0 \<rparr>"
               and ?s2.0 = "((), [CallMediaList (0, 86399) 20, PrintProcessingPage 20 1])",
             THEN conjunct2, THEN conjunct1, THEN mp] b c
    by simp
  have g3: "entry_count ?one < 10000"
    using t [where cl = one_page_client and cfg = plain_config
               and days = "(719163, 719163)" and ?s0.0 = "((), [])" and r = ?one
               and s' = "((), [CallMediaList (0, 86399) 1, PrintProcessingPage 1 1,
                               CallMediaList (0, 86399) 2])",
             THEN conjunct2, THEN conjunct2, THEN mp, OF d] .
  from g1 g2 d g3 show ?thesis by simp
qed

text \<open>
  A page entry whose duration is more days than a \<^verbatim>\<open>timedelta\<close> holds ends the query with
  \<^verbatim>\<open>OverflowError\<close> before it is counted, also at a count of 9999.
\<close>

lemma overlong_duration_raises:
  "fetch_loop
     (single_entry_client
        \<lparr> media_list := (\<lambda>p ts i. (Inr [sample_entry \<lparr> me_duration := Some (10 ^ 14) \<rparr>], p)) \<rparr>)
     plain_config (0, 86399) 20
     \<lparr> entry_count = 9999, total_duration = 0, all_entries = [], total_flavor_size = 0 \<rparr>
     ((), [])
   = (Raised OverflowError, ((), [CallMediaList (0, 86399) 20, PrintProcessingPage 20 1]))"
proof -
  have d: "duration_text (Some (10 ^ 14)) = Inl OverflowError"
    by (simp add: duration_text_def timedelta_str_def)
  show ?thesis
    by (subst fetch_loop.simps)
       (simp add: single_entry_client_def enrich_def plain_config_def sample_entry_def
          build_row_def d [simplified])
qed

subsection \<open>The run: chunks, summary and export\<close>

text \<open>
  A row of \<^verbatim>\<open>summary\<close>: the chunk and the three sums of its query. The script stores the
  duration in minutes and the flavor size in megabytes, both rounded to two decimals; the
  row keeps the integers they are computed from.
\<close>

record summary_row =
  sr_range :: chunk
  sr_entry_count :: nat
  sr_duration_sec :: int
  sr_flavor_size_kb :: int

text \<open>
  The \<^verbatim>\<open>for\<close> loop over the generator, on the chunks it yields: the line that announces the
  chunk, its query, then the summary row, whose two divisions raise \<^verbatim>\<open>OverflowError\<close> for a
  sum too large for a double. An exit or an exception of a query ends the loop.
\<close>

fun main_loop ::
  "'p cd_client \<Rightarrow> cd_config \<Rightarrow> chunk list \<Rightarrow> summary_row list \<times> detail_row list
     \<Rightarrow> 'p cd_state \<Rightarrow> (summary_row list \<times> detail_row list) outcome \<times> 'p cd_state" where
  "main_loop cl cfg [] acc s = (Returned acc, s)"
| "main_loop cl cfg (c # cs) acc s =
     (case fetch_entries_for_interval cl cfg c
             (fst s, snd s @ [PrintProcessingChunk (fst c) (snd c)]) of
        (Exit n, s1) \<Rightarrow> (Exit n, s1)
      | (Raised x, s1) \<Rightarrow> (Raised x, s1)
      | (Returned r, s1) \<Rightarrow>
          if float_div_overflows (total_duration r) 60
             \<or> float_div_overflows (total_flavor_size r) 1024
          then (Raised OverflowError, s1)
          else main_loop cl cfg cs
                 (fst acc @ [\<lparr> sr_range = c, sr_entry_count = entry_count r,
                               sr_duration_sec = total_duration r,
                               sr_flavor_size_kb = total_flavor_size r \<rparr>],
                  snd acc @ all_entries r) s1)"

text \<open>
  The script from the start of the session to the end of the loop (lines 115 to 338). The
  generator is consumed as the loop goes: an exception that ends it is raised when the
  chunks before it have been processed.
\<close>

definition main_execution ::
  "'p cd_client \<Rightarrow> cd_config \<Rightarrow> int \<Rightarrow> int \<Rightarrow> 'p cd_state
     \<Rightarrow> (summary_row list \<times> detail_row list) outcome \<times> 'p cd_state" where
  "main_execution cl cfg START_DATE END_DATE s =
     (case cd_session_start cl (fst s) of
        (Inl x, p1) \<Rightarrow> (Raised x, (p1, snd s @ [CallSessionStart]))
      | (Inr ks, p1) \<Rightarrow>
          (case get_interval_ranges START_DATE END_DATE (RESTRICTION_INTERVAL cfg) of
             (chunks, ended) \<Rightarrow>
               (case main_loop cl cfg chunks ([], []) (p1, snd s @ [CallSessionStart]) of
                  (Returned acc, s1) \<Rightarrow>
                    (case ended of None \<Rightarrow> (Returned acc, s1) | Some x \<Rightarrow> (Raised x, s1))
                | (Exit n, s1) \<Rightarrow> (Exit n, s1)
                | (Raised x, s1) \<Rightarrow> (Raised x, s1))))"

text \<open>
  The summary and the totals (lines 341 to 368) print one line for each chunk and the block
  of totals; nothing there raises. The export block follows.
\<close>

definition summary_output :: "summary_row list \<Rightarrow> cd_event list" where
  "summary_output summary =
     map (\<lambda>row. PrintSummaryRow (sr_range row) (sr_entry_count row)) summary
     @ [PrintTotals (sum_list (map sr_entry_count summary))]"

definition interval_label :: "int \<Rightarrow> string" where
  "interval_label i =
     (if i = 1 then ''year'' else if i = 2 then ''month'' else if i = 3 then ''week''
      else if i = 4 then ''day'' else ''custom'')"

definition csv_filenames :: "cd_config \<Rightarrow> string \<Rightarrow> string \<times> string" where
  "csv_filenames cfg timestamp =
     (let owner_label = (if OWNER_ID cfg \<noteq> [] then OWNER_ID cfg else ''noOwner'');
          tag_label = (if TAG cfg \<noteq> []
                       then map (\<lambda>c. if c = CHR '' '' then CHR ''_'' else c) (TAG cfg)
                       else ''noTag'');
          cat_label = (if CATEGORY_ID cfg \<noteq> [] then CATEGORY_ID cfg else ''noCategory'');
          rest = PARTNER_ID cfg @ ''_'' @ tag_label @ ''_'' @ cat_label @ ''_'' @ owner_label
                   @ ''_'' @ interval_label (RESTRICTION_INTERVAL cfg) @ ''_'' @ timestamp
                   @ ''.csv''
      in (''video_summary_'' @ rest, ''video_details_'' @ rest))"

text \<open>
  The export block (lines 372 to 435), run on the state the totals leave. \<open>timestamp\<close> is the
  text of \<^verbatim>\<open>datetime.now()\<close>. \<open>WriteCsv\<close> records that the named file is opened for writing;
  an exception of the first file leaves the script before the second is opened.
\<close>

definition csv_export ::
  "'p cd_client \<Rightarrow> cd_config \<Rightarrow> string \<Rightarrow> 'p cd_state \<Rightarrow> unit outcome \<times> 'p cd_state" where
  "csv_export cl cfg timestamp s =
     (if EXPORT_CSV cfg
      then
        (case csv_filenames cfg timestamp of
           (summary_filename, details_filename) \<Rightarrow>
             (case write_csv cl (fst s) summary_filename of
                (Inl x, p1) \<Rightarrow> (Raised x, (p1, snd s @ [WriteCsv summary_filename]))
              | (Inr u, p1) \<Rightarrow>
                  (case write_csv cl p1 details_filename of
                     (Inl x, p2) \<Rightarrow>
                       (Raised x, (p2, snd s @ [WriteCsv summary_filename,
                                                WriteCsv details_filename]))
                   | (Inr u', p2) \<Rightarrow>
                       (Returned (),
                        (p2, snd s @ [WriteCsv summary_filename, WriteCsv details_filename,
                                      PrintCsvCreated summary_filename details_filename])))))
      else (Returned (), s))"

text \<open>The script from line 115 to its end.\<close>

definition report ::
  "'p cd_client \<Rightarrow> cd_config \<Rightarrow> int \<Rightarrow> int \<Rightarrow> string \<Rightarrow> 'p cd_state
     \<Rightarrow> unit outcome \<times> 'p cd_state" where
  "report cl cfg START_DATE END_DATE timestamp s =
     (case main_execution cl cfg START_DATE END_DATE s of
        (Exit n, s1) \<Rightarrow> (Exit n, s1)
      | (Raised x, s1) \<Rightarrow> (Raised x, s1)
      | (Returned acc, s1) \<Rightarrow>
          csv_export cl cfg timestamp (fst s1, snd s1 @ summary_output (fst acc)))"

fun is_write_csv :: "cd_event \<Rightarrow> bool" where
  "is_write_csv (WriteCsv name) = True"
| "is_write_csv ev = False"

definition files_written :: "cd_event list \<Rightarrow> cd_event list" where
  "files_written tr = filter is_write_csv tr"

subsection \<open>No file is opened before the export block\<close>

lemma enrich_files:
  "enrich cl cfg e s = (r, s') \<Longrightarrow> files_written (snd s') = files_written (snd s)"
  by (auto simp: enrich_def files_written_def Let_def
      split: if_splits prod.splits sum.splits option.splits)

lemma process_page_files:
  "process_page cl cfg es acc s = (r, s') \<Longrightarrow> files_written (snd s') = files_written (snd s)"
proof (induction es arbitrary: acc s)
  case Nil
  then show ?case by simp
next
  case (Cons e es)
  obtain er s1 where en: "enrich cl cfg e s = (er, s1)" by (cases "enrich cl cfg e s")
  have f1: "files_written (snd s1) = files_written (snd s)" using en by (rule enrich_files)
  show ?case
  proof (cases er)
    case (Inl x)
    with Cons.prems en f1 show ?thesis by simp
  next
    case (Inr enriched)
    show ?thesis
    proof (cases "build_row cl e enriched")
      case (Inl x)
      with Cons.prems en \<open>er = Inr enriched\<close> f1 show ?thesis by simp
    next
      case row: (Inr row)
      with Cons.prems en \<open>er = Inr enriched\<close>
      have "process_page cl cfg es
              \<lparr> entry_count = entry_count acc + 1,
                total_duration = total_duration acc
                                   + (case me_duration e of None \<Rightarrow> 0 | Some d \<Rightarrow> d),
                all_entries = all_entries acc @ [row],
                total_flavor_size = total_flavor_size acc + snd (snd enriched) \<rparr> s1
            = (r, s')"
        by simp
      from Cons.IH [OF this] f1 show ?thesis by simp
    qed
  qed
qed

lemma fetch_loop_files:
  "fetch_loop cl cfg ts pageIndex acc s = (r, s') \<Longrightarrow>
     files_written (snd s') = files_written (snd s)"
proof (induction cl cfg ts pageIndex acc s rule: fetch_loop.induct)
  case (1 cl cfg ts pageIndex acc s)
  obtain res p1 where ml: "media_list cl (fst s) ts pageIndex = (res, p1)"
    by (cases "media_list cl (fst s) ts pageIndex")
  show ?case
  proof (cases res)
    case (Inl x)
    with ml "1.prems" show ?thesis
      by (subst (asm) fetch_loop.simps)
         (auto simp: files_written_def split: exn.splits if_splits)
  next
    case (Inr objs)
    show ?thesis
    proof (cases "objs = []")
      case True
      with ml Inr "1.prems" show ?thesis
        by (subst (asm) fetch_loop.simps) (auto simp: files_written_def)
    next
      case False
      obtain pr s2 where pp: "process_page cl cfg objs acc
          (p1, snd s @ [CallMediaList ts pageIndex, PrintProcessingPage pageIndex (length objs)])
          = (pr, s2)"
        by (cases "process_page cl cfg objs acc
          (p1, snd s @ [CallMediaList ts pageIndex, PrintProcessingPage pageIndex (length objs)])")
      from process_page_files [OF pp]
      have f2: "files_written (snd s2) = files_written (snd s)"
        by (simp add: files_written_def)
      show ?thesis
      proof (cases pr)
        case (Inl x)
        with ml Inr False pp "1.prems" f2 show ?thesis
          by (subst (asm) fetch_loop.simps) auto
      next
        case acc': (Inr acc')
        show ?thesis
        proof (cases "10000 \<le> entry_count acc'")
          case True
          with ml Inr False pp acc' "1.prems" f2 show ?thesis
            by (subst (asm) fetch_loop.simps) (auto simp: files_written_def)
        next
          case below: False
          with ml Inr False pp acc' "1.prems"
          have "fetch_loop cl cfg ts (pageIndex + 1) acc' s2 = (r, s')"
            by (subst (asm) fetch_loop.simps) auto
          from "1.IH" [OF ml [symmetric] Inr False pp [symmetric] acc' below this] f2
          show ?thesis by simp
        qed
      qed
    qed
  qed
qed

lemma fetch_entries_for_interval_files:
  "fetch_entries_for_interval cl cfg days s = (r, s') \<Longrightarrow>
     files_written (snd s') = files_written (snd s)"
  by (auto simp: fetch_entries_for_interval_def split: sum.splits dest: fetch_loop_files)

lemma main_loop_files:
  "main_loop cl cfg cs acc s = (r, s') \<Longrightarrow> files_written (snd s') = files_written (snd s)"
proof (induction cs arbitrary: acc s)
  case Nil
  then show ?case by simp
next
  case (Cons c cs)
  obtain fr s1 where fe: "fetch_entries_for_interval cl cfg c
      (fst s, snd s @ [PrintProcessingChunk (fst c) (snd c)]) = (fr, s1)"
    by (cases "fetch_entries_for_interval cl cfg c
      (fst s, snd s @ [PrintProcessingChunk (fst c) (snd c)])")
  from fetch_entries_for_interval_files [OF fe]
  have f1: "files_written (snd s1) = files_written (snd s)"
    by (simp add: files_written_def)
  show ?case
  proof (cases fr)
    case (Returned res)
    show ?thesis
    proof (cases "float_div_overflows (total_duration res) 60
             \<or> float_div_overflows (total_flavor_size res) 1024")
      case True
      with Cons.prems fe Returned f1 show ?thesis by auto
    next
      case False
      with Cons.prems fe Returned
      have "main_loop cl cfg cs
              (fst acc @ [\<lparr> sr_range = c, sr_entry_count = entry_count res,
                            sr_duration_sec = total_duration res,
                            sr_flavor_size_kb = total_flavor_size res \<rparr>],
               snd acc @ all_entries res) s1 = (r, s')"
        by simp
      from Cons.IH [OF this] f1 show ?thesis by simp
    qed
  next
    case (Exit n)
    with Cons.prems fe f1 show ?thesis by simp
  next
    case (Raised x)
    with Cons.prems fe f1 show ?thesis by simp
  qed
qed

lemma main_execution_files:
  assumes "main_execution cl cfg S E s = (r, s')"
  shows "files_written (snd s') = files_written (snd s)"
proof -
  obtain sr p1 where ss: "cd_session_start cl (fst s) = (sr, p1)"
    by (cases "cd_session_start cl (fst s)")
  show ?thesis
  proof (cases sr)
    case (Inl x)
    with assms ss show ?thesis by (auto simp: main_execution_def files_written_def)
  next
    case (Inr ks)
    obtain chunks ended where
      g: "get_interval_ranges S E (RESTRICTION_INTERVAL cfg) = (chunks, ended)"
      by (cases "get_interval_ranges S E (RESTRICTION_INTERVAL cfg)")
    obtain lr s1 where
      ml: "main_loop cl cfg chunks ([], []) (p1, snd s @ [CallSessionStart]) = (lr, s1)"
      by (cases "main_loop cl cfg chunks ([], []) (p1, snd s @ [CallSessionStart])")
    from main_loop_files [OF ml]
    have f1: "files_written (snd s1) = files_written (snd s)"
      by (simp add: files_written_def)
    from assms ss Inr g ml have "s' = s1"
      by (auto simp: main_execution_def split: outcome.splits option.splits)
    with f1 show ?thesis by simp
  qed
qed

lemma summary_output_files: "files_written (summary_output summary) = []"
  by (simp add: summary_output_def files_written_def filter_empty_conv)

lemma files_written_append:
  "files_written (xs @ ys) = files_written xs @ files_written ys"
  by (simp add: files_written_def)

lemma report_without_export:
  assumes "\<not> EXPORT_CSV cfg" and "report cl cfg S E stamp s = (r, s')"
  shows "files_written (snd s') = files_written (snd s)"
proof -
  obtain mr s1 where me: "main_execution cl cfg S E s = (mr, s1)"
    by (cases "main_execution cl cfg S E s")
  from main_execution_files [OF me]
  have f1: "files_written (snd s1) = files_written (snd s)" .
  show ?thesis
  proof (cases mr)
    case (Returned acc)
    with assms me have "s' = (fst s1, snd s1 @ summary_output (fst acc))"
      by (simp add: report_def csv_export_def)
    with f1 show ?thesis by (simp add: files_written_append summary_output_files)
  next
    case (Exit n)
    with assms me f1 show ?thesis by (simp add: report_def)
  next
    case (Raised x)
    with assms me f1 show ?thesis by (simp add: report_def)
  qed
qed

lemma report_exits:
  assumes "main_execution cl cfg S E s = (Exit n, s1)"
  shows "report cl cfg S E stamp s = (Exit n, s1)
       \<and> files_written (snd s1) = files_written (snd s)"
  using assms main_execution_files [OF assms] by (simp add: report_def)

lemma report_raises:
  assumes "main_execution cl cfg S E s = (Raised x, s1)"
  shows "report cl cfg S E stamp s = (Raised x, s1)
       \<and> files_written (snd s1) = files_written (snd s)"
  using assms main_execution_files [OF assms] by (simp add: report_def)

lemma report_exports:
  assumes "main_execution cl cfg S E s = (Returned acc, s1)" and "EXPORT_CSV cfg"
      and "csv_filenames cfg stamp = (summary_filename, details_filename)"
      and "write_csv cl (fst s1) summary_filename = (Inr u, p1)"
      and "write_csv cl p1 details_filename = (Inr u', p2)"
  shows "report cl cfg S E stamp s
           = (Returned (),
              (p2, snd s1 @ summary_output (fst acc)
                     @ [WriteCsv summary_filename, WriteCsv details_filename,
                        PrintCsvCreated summary_filename details_filename]))"
  using assms by (simp add: report_def csv_export_def)

lemma report_first_file_fails:
  assumes "main_execution cl cfg S E s = (Returned acc, s1)" and "EXPORT_CSV cfg"
      and "csv_filenames cfg stamp = (summary_filename, details_filename)"
      and "write_csv cl (fst s1) summary_filename = (Inl x, p1)"
  shows "report cl cfg S E stamp s
           = (Raised x, (p1, snd s1 @ summary_output (fst acc) @ [WriteCsv summary_filename]))"
  using assms by (simp add: report_def csv_export_def)

lemma EXPORT_CSV_of_iff:
  "EXPORT_CSV_of env \<longleftrightarrow> (\<exists>v. env ''EXPORT_CSV'' = Some v \<and> v \<noteq> [])"
  by (auto simp: EXPORT_CSV_of_def split: option.splits)

lemma enrich_flavor_list_iff:
  "list_ex is_cd_flavor_list (snd (snd (enrich cl (cfg \<lparr> FLAVOR_SIZE := answer_of a \<rparr>) e (p, []))))
     \<longleftrightarrow> py_strip a \<noteq> []"
  by (auto simp: enrich_def answer_of_def Let_def split: prod.splits sum.splits option.splits)

lemma enrich_get_url_iff:
  assumes "cd_flavorAsset_list cl p (me_id e) = (Inr fl, p1)"
      and "find fa_isOriginal fl = Some src"
  shows "list_ex is_cd_get_url
           (snd (snd (enrich cl (cfg \<lparr> FLAVOR_SIZE := answer_of a,
                                        FLAVOR_SOURCE_NAME := answer_of b \<rparr>) e (p, []))))
         \<longleftrightarrow> py_strip a \<noteq> [] \<and> py_strip b \<noteq> []"
  using assms
  by (auto simp: enrich_def answer_of_def Let_def split: prod.splits sum.splits option.splits)

subsection \<open>Runs to evaluate\<close>

text \<open>
  A run over the single day 2024-01-15 (day 738900) with daily chunks on \<open>one_page_client\<close>,
  and what it leaves when it reaches the end of the loop.
\<close>

definition day_config :: cd_config where
  "day_config = plain_config \<lparr> RESTRICTION_INTERVAL := 4 \<rparr>"

definition sample_acc :: fetch_acc where
  "sample_acc = \<lparr> entry_count = 1, total_duration = 3600, all_entries = [sample_row],
                  total_flavor_size = 0 \<rparr>"

definition sample_summary :: "summary_row list" where
  "sample_summary = [\<lparr> sr_range = (738900, 738900), sr_entry_count = 1,
                       sr_duration_sec = 3600, sr_flavor_size_kb = 0 \<rparr>]"

definition day_trace :: "cd_event list" where
  "day_trace =
     [CallSessionStart, PrintProcessingChunk 738900 738900,
      CallMediaList (1705276800, 1705363199) 1, PrintProcessingPage 1 1,
      CallMediaList (1705276800, 1705363199) 2]"

definition unwritable_client :: "unit cd_client" where
  "unwritable_client =
     \<lparr> cd_session_start = (\<lambda>p. (Inr ''ks'', p)),
       media_list = (\<lambda>p ts i. (Inr [], p)),
       cd_flavorAsset_list = (\<lambda>p i. (Inr [], p)),
       cd_flavorAsset_getUrl = (\<lambda>p i. (Inr [], p)),
       media_types = [1 \<mapsto> ''VIDEO'', 2 \<mapsto> ''IMAGE'', 5 \<mapsto> ''AUDIO''],
       local_time_text = (\<lambda>t. Inr ''2024-01-01 02:00:00''),
       day_start_timestamp = (\<lambda>d. Inr ((d - 719163) * 86400)),
       day_end_timestamp = (\<lambda>d. Inr ((d - 719163) * 86400 + 86399)),
       write_csv = (\<lambda>p name. (Inl (OtherException ''PermissionError''), p)) \<rparr>"

lemma one_day_chunks: "get_interval_ranges 738900 738900 4 = ([(738900, 738900)], None)"
proof -
  have n: "next_date 4 738900 = Inr 738900" by (simp add: next_date_def)
  have a: "add_days 738900 1 = Inr 738901" by (simp add: add_days_def MAXORDINAL_def)
  have r: "get_interval_ranges 738901 738900 4 = ([], None)"
    by (subst get_interval_ranges.simps) simp
  show ?thesis
    by (subst get_interval_ranges.simps) (simp add: n a r)
qed

lemma invalid_interval_chunks: "get_interval_ranges 738900 738900 5 = ([], Some ValueError)"
  by (subst get_interval_ranges.simps) (simp add: next_date_def)

lemma one_page_fetch:
  assumes "FLAVOR_SIZE cfg = []"
  shows "fetch_entries_for_interval one_page_client cfg (738900, 738900) (p, tr)
           = (Returned sample_acc,
              (p, tr @ [CallMediaList (1705276800, 1705363199) 1, PrintProcessingPage 1 1,
                        CallMediaList (1705276800, 1705363199) 2]))"
proof -
  let ?zero = "\<lparr> entry_count = 0, total_duration = 0, all_entries = [],
                 total_flavor_size = 0 \<rparr>"
  let ?ts = "(1705276800 :: int, 1705363199 :: int)"
  have e1: "enrich one_page_client cfg sample_entry s = (Inr (None, 2, 0), s)" for s
    using assms by (simp add: enrich_def sample_entry_def)
  have e2: "build_row one_page_client sample_entry (None, 2, 0) = Inr sample_row"
    by (simp add: build_row_def sample_entry_def one_page_client_def time_text_def
        duration_text_3600 no_overflow_0 semicolons_def sample_row_def)
  have pp: "process_page one_page_client cfg [sample_entry] ?zero
              (p, snd (p, tr) @ [CallMediaList ?ts 1,
                                 PrintProcessingPage 1 (length [sample_entry])])
            = (Inr sample_acc, (p, tr @ [CallMediaList ?ts 1, PrintProcessingPage 1 1]))"
    by (simp add: e1 e2 sample_acc_def) (simp add: sample_entry_def)
  have q1: "fetch_loop one_page_client cfg ?ts 1 ?zero (p, tr)
            = fetch_loop one_page_client cfg ?ts (1 + 1) sample_acc
                (p, tr @ [CallMediaList ?ts 1, PrintProcessingPage 1 1])"
    by (rule fetch_loop_next_page [where objs = "[sample_entry]" and ?p1.0 = p, OF _ _ pp])
       (simp_all add: one_page_client_def sample_acc_def)
  have q2: "fetch_loop one_page_client cfg ?ts (1 + 1) sample_acc
              (p, tr @ [CallMediaList ?ts 1, PrintProcessingPage 1 1])
            = (Returned sample_acc,
               (p, snd (p, tr @ [CallMediaList ?ts 1, PrintProcessingPage 1 1])
                     @ [CallMediaList ?ts (1 + 1)]))"
    by (rule fetch_loop_empty_page) (simp add: one_page_client_def)
  have ts: "day_start_timestamp one_page_client (fst (738900, 738900)) = Inr 1705276800"
    "day_end_timestamp one_page_client (snd (738900, 738900)) = Inr 1705363199"
    by (simp_all add: one_page_client_def)
  show ?thesis
    unfolding fetch_entries_for_interval_def ts sum.case q1 q2 by simp
qed

lemma sample_acc_fits:
  "\<not> (float_div_overflows (total_duration sample_acc) 60
      \<or> float_div_overflows (total_flavor_size sample_acc) 1024)"
proof -
  have "\<not> float_div_overflows 3600 60" by (rule small_does_not_overflow) simp_all
  moreover have "\<not> float_div_overflows 0 1024" by (rule no_overflow_0)
  ultimately show ?thesis by (simp add: sample_acc_def)
qed

lemma one_day_run:
  assumes "FLAVOR_SIZE cfg = []" and "RESTRICTION_INTERVAL cfg = 4"
  shows "main_execution one_page_client cfg 738900 738900 ((), [])
           = (Returned (sample_summary, [sample_row]), ((), day_trace))"
proof -
  have ss: "cd_session_start one_page_client (fst ((), [])) = (Inr ''ks'', ())"
    by (simp add: one_page_client_def)
  have f: "fetch_entries_for_interval one_page_client cfg (738900, 738900)
             ((), [CallSessionStart, PrintProcessingChunk 738900 738900])
           = (Returned sample_acc, ((), day_trace))"
    using one_page_fetch [OF assms(1), of "()" "[CallSessionStart,
      PrintProcessingChunk 738900 738900]"]
    by (simp add: day_trace_def)
  have ml: "main_loop one_page_client cfg [(738900, 738900)] ([], [])
              ((), snd ((), []) @ [CallSessionStart])
            = (Returned (sample_summary, [sample_row]), ((), day_trace))"
    using sample_acc_fits by (simp add: f) (simp add: sample_acc_def sample_summary_def)
  show ?thesis
    unfolding main_execution_def ss assms(2) one_day_chunks prod.case sum.case ml by simp
qed

lemma refused_run:
  assumes "RESTRICTION_INTERVAL cfg = 4"
  shows "main_execution refusing_client cfg 738900 738900 ((), [])
           = (Exit 1, ((), [CallSessionStart, PrintProcessingChunk 738900 738900,
                            CallMediaList (1705276800, 1705363199) 1, PrintQueryRefused,
                            PrintTryFinerInterval]))"
proof -
  have ss: "cd_session_start refusing_client (fst ((), [])) = (Inr ''ks'', ())"
    by (simp add: refusing_client_def)
  have ts: "day_start_timestamp refusing_client (fst (738900, 738900)) = Inr 1705276800"
    "day_end_timestamp refusing_client (snd (738900, 738900)) = Inr 1705363199"
    by (simp_all add: refusing_client_def)
  have q: "fetch_loop refusing_client cfg (1705276800, 1705363199) 1 acc
             ((), [CallSessionStart, PrintProcessingChunk 738900 738900])
           = (Exit 1, ((), snd ((), [CallSessionStart, PrintProcessingChunk 738900 738900])
                            @ [CallMediaList (1705276800, 1705363199) 1, PrintQueryRefused,
                               PrintTryFinerInterval]))" for acc
    by (rule fetch_loop_query_exceeded) (simp add: refusing_client_def)
  have f: "fetch_entries_for_interval refusing_client cfg (738900, 738900)
             ((), [CallSessionStart, PrintProcessingChunk 738900 738900])
           = (Exit 1, ((), [CallSessionStart, PrintProcessingChunk 738900 738900,
                            CallMediaList (1705276800, 1705363199) 1, PrintQueryRefused,
                            PrintTryFinerInterval]))"
    unfolding fetch_entries_for_interval_def ts sum.case q by simp
  have ml: "main_loop refusing_client cfg [(738900, 738900)] ([], [])
              ((), snd ((), []) @ [CallSessionStart])
            = (Exit 1, ((), [CallSessionStart, PrintProcessingChunk 738900 738900,
                            CallMediaList (1705276800, 1705363199) 1, PrintQueryRefused,
                            PrintTryFinerInterval]))"
    by (simp add: f)
  show ?thesis
    unfolding main_execution_def ss assms one_day_chunks prod.case sum.case ml by simp
qed

lemma invalid_interval_run:
  assumes "RESTRICTION_INTERVAL cfg = 5"
  shows "main_execution one_page_client cfg 738900 738900 ((), [])
           = (Raised ValueError, ((), [CallSessionStart]))"
proof -
  have ss: "cd_session_start one_page_client (fst ((), [])) = (Inr ''ks'', ())"
    by (simp add: one_page_client_def)
  show ?thesis
    unfolding main_execution_def ss assms invalid_interval_chunks by simp
qed

lemma empty_run:
  assumes "RESTRICTION_INTERVAL cfg = 4"
  shows "main_execution unwritable_client cfg 738900 738900 ((), [])
           = (Returned ([\<lparr> sr_range = (738900, 738900), sr_entry_count = 0,
                            sr_duration_sec = 0, sr_flavor_size_kb = 0 \<rparr>], []),
              ((), [CallSessionStart, PrintProcessingChunk 738900 738900,
                    CallMediaList (1705276800, 1705363199) 1]))"
proof -
  have ss: "cd_session_start unwritable_client (fst ((), [])) = (Inr ''ks'', ())"
    by (simp add: unwritable_client_def)
  have ts: "day_start_timestamp unwritable_client (fst (738900, 738900)) = Inr 1705276800"
    "day_end_timestamp unwritable_client (snd (738900, 738900)) = Inr 1705363199"
    by (simp_all add: unwritable_client_def)
  have q: "fetch_loop unwritable_client cfg (1705276800, 1705363199) 1 acc
             ((), [CallSessionStart, PrintProcessingChunk 738900 738900])
           = (Returned acc,
              ((), snd ((), [CallSessionStart, PrintProcessingChunk 738900 738900])
                     @ [CallMediaList (1705276800, 1705363199) 1]))" for acc
    by (rule fetch_loop_empty_page) (simp add: unwritable_client_def)
  have f: "fetch_entries_for_interval unwritable_client cfg (738900, 738900)
             ((), [CallSessionStart, PrintProcessingChunk 738900 738900])
           = (Returned \<lparr> entry_count = 0, total_duration = 0, all_entries = [],
                         total_flavor_size = 0 \<rparr>,
              ((), [CallSessionStart, PrintProcessingChunk 738900 738900,
                    CallMediaList (1705276800, 1705363199) 1]))"
    unfolding fetch_entries_for_interval_def ts sum.case q by simp
  have ml: "main_loop unwritable_client cfg [(738900, 738900)] ([], [])
              ((), snd ((), []) @ [CallSessionStart])
            = (Returned ([\<lparr> sr_range = (738900, 738900), sr_entry_count = 0,
                            sr_duration_sec = 0, sr_flavor_size_kb = 0 \<rparr>], []),
              ((), [CallSessionStart, PrintProcessingChunk 738900 738900,
                    CallMediaList (1705276800, 1705363199) 1]))"
    using no_overflow_0 small_does_not_overflow [of 0 60] by (simp add: f)
  show ?thesis
    unfolding main_execution_def ss assms one_day_chunks prod.case sum.case ml by simp
qed

lemma day_filenames:
  "csv_filenames (day_config \<lparr> EXPORT_CSV := b \<rparr>) ''20240115_120000''
     = (''video_summary_123_noTag_noCategory_noOwner_day_20240115_120000.csv'',
        ''video_details_123_noTag_noCategory_noOwner_day_20240115_120000.csv'')"
  by (simp add: csv_filenames_def day_config_def plain_config_def interval_label_def Let_def)

subsection \<open>CSV export and the two enrichment prompts\<close>

text \<open>
  Claim C10, as stated, fails for the prompts: an answer of one space is not empty, but
  \<^verbatim>\<open>strip()\<close> makes \<open>FLAVOR_SIZE\<close> empty and no flavor-asset call is made for an entry.
\<close>

theorem blank_answer_does_not_enable_enrichment:
  "'' '' \<noteq> []
 \<and> answer_of '' '' = []
 \<and> \<not> list_ex is_cd_flavor_list
       (snd (snd (enrich single_entry_client
                    (plain_config \<lparr> FLAVOR_SIZE := answer_of '' '' \<rparr>) sample_entry ((), []))))"
proof -
  have a: "answer_of '' '' = []" by code_simp
  show ?thesis
    by (simp add: a enrich_def plain_config_def sample_entry_def)
qed

text \<open>
  Claim C10, amended. \<open>EXPORT_CSV\<close> is true if and only if the variable is set to a string
  that is not empty; \<^verbatim>\<open>False\<close>, \<^verbatim>\<open>0\<close> and \<^verbatim>\<open>no\<close> make it true, an unset or empty variable does
  not. The variable decides the export only for a run that reaches the export block, that
  is when the session has started, every chunk query has returned and nothing has raised:
  then, with the variable set to a non-empty string, the summary file and then the details
  file are written under the names of \<open>csv_filenames\<close> and their names are printed (when the
  first file cannot be written the script ends with that exception and the second is not
  opened), and with the variable unset or empty no file is opened. A run that exits or
  raises before the export block opens no file, whatever the variable. For the prompts the
  rule applies to the answer after \<^verbatim>\<open>strip()\<close>: the flavor-asset list call is made for an
  entry if and only if the stripped answer to the flavor-size prompt is not empty, and, for
  an entry with an original flavor, the URL call is made if and only if the stripped answers
  to both prompts are not empty. The answer \<^verbatim>\<open>no\<close> stays \<^verbatim>\<open>no\<close> and enables the path.
\<close>

theorem truthiness_of_configuration:
  "(EXPORT_CSV_of env \<longleftrightarrow> (\<exists>v. env ''EXPORT_CSV'' = Some v \<and> v \<noteq> []))
 \<and> EXPORT_CSV_of [''EXPORT_CSV'' \<mapsto> ''False'']
 \<and> EXPORT_CSV_of [''EXPORT_CSV'' \<mapsto> ''0'']
 \<and> EXPORT_CSV_of [''EXPORT_CSV'' \<mapsto> ''no'']
 \<and> \<not> EXPORT_CSV_of Map.empty
 \<and> \<not> EXPORT_CSV_of [''EXPORT_CSV'' \<mapsto> []]
 \<and> (EXPORT_CSV cfg = EXPORT_CSV_of env \<and> env ''EXPORT_CSV'' = Some v \<and> v \<noteq> []
      \<and> main_execution cl cfg S E s = (Returned acc, s1)
      \<and> csv_filenames cfg stamp = (summary_filename, details_filename)
      \<and> write_csv cl (fst s1) summary_filename = (Inr u, p1)
      \<and> write_csv cl p1 details_filename = (Inr u', p2) \<longrightarrow>
      report cl cfg S E stamp s
        = (Returned (),
           (p2, snd s1 @ summary_output (fst acc)
                  @ [WriteCsv summary_filename, WriteCsv details_filename,
                     PrintCsvCreated summary_filename details_filename])))
 \<and> (EXPORT_CSV cfg = EXPORT_CSV_of env \<and> env ''EXPORT_CSV'' = Some v \<and> v \<noteq> []
      \<and> main_execution cl cfg S E s = (Returned acc, s1)
      \<and> csv_filenames cfg stamp = (summary_filename, details_filename)
      \<and> write_csv cl (fst s1) summary_filename = (Inl x, p1) \<longrightarrow>
      report cl cfg S E stamp s
        = (Raised x, (p1, snd s1 @ summary_output (fst acc) @ [WriteCsv summary_filename])))
 \<and> (EXPORT_CSV cfg = EXPORT_CSV_of env
      \<and> (env ''EXPORT_CSV'' = None \<or> env ''EXPORT_CSV'' = Some [])
      \<and> report cl cfg S E stamp s = (r, s') \<longrightarrow>
      files_written (snd s') = files_written (snd s))
 \<and> (main_execution cl cfg S E s = (Exit n, s1) \<longrightarrow>
      report cl cfg S E stamp s = (Exit n, s1)
      \<and> files_written (snd s1) = files_written (snd s))
 \<and> (main_execution cl cfg S E s = (Raised x, s1) \<longrightarrow>
      report cl cfg S E stamp s = (Raised x, s1)
      \<and> files_written (snd s1) = files_written (snd s))
 \<and> (list_ex is_cd_flavor_list
        (snd (snd (enrich cl (cfg \<lparr> FLAVOR_SIZE := answer_of a \<rparr>) e (p, []))))
      \<longleftrightarrow> py_strip a \<noteq> [])
 \<and> (cd_flavorAsset_list cl p (me_id e) = (Inr fl, p') \<and> find fa_isOriginal fl = Some src \<longrightarrow>
      (list_ex is_cd_get_url
         (snd (snd (enrich cl (cfg \<lparr> FLAVOR_SIZE := answer_of a,
                                      FLAVOR_SOURCE_NAME := answer_of b \<rparr>) e (p, []))))
       \<longleftrightarrow> py_strip a \<noteq> [] \<and> py_strip b \<noteq> []))
 \<and> answer_of ''no'' = ''no''"
proof (intro conjI impI)
  show "EXPORT_CSV_of env \<longleftrightarrow> (\<exists>v. env ''EXPORT_CSV'' = Some v \<and> v \<noteq> [])"
    by (rule EXPORT_CSV_of_iff)
  show "EXPORT_CSV_of [''EXPORT_CSV'' \<mapsto> ''False'']" by (simp add: EXPORT_CSV_of_def)
  show "EXPORT_CSV_of [''EXPORT_CSV'' \<mapsto> ''0'']" by (simp add: EXPORT_CSV_of_def)
  show "EXPORT_CSV_of [''EXPORT_CSV'' \<mapsto> ''no'']" by (simp add: EXPORT_CSV_of_def)
  show "\<not> EXPORT_CSV_of Map.empty" by (simp add: EXPORT_CSV_of_def)
  show "\<not> EXPORT_CSV_of [''EXPORT_CSV'' \<mapsto> []]" by (simp add: EXPORT_CSV_of_def)
  show "list_ex is_cd_flavor_list
        (snd (snd (enrich cl (cfg \<lparr> FLAVOR_SIZE := answer_of a \<rparr>) e (p, []))))
      \<longleftrightarrow> py_strip a \<noteq> []"
    by (rule enrich_flavor_list_iff)
  show "answer_of ''no'' = ''no''" by code_simp
next
  assume h: "EXPORT_CSV cfg = EXPORT_CSV_of env \<and> env ''EXPORT_CSV'' = Some v \<and> v \<noteq> []
      \<and> main_execution cl cfg S E s = (Returned acc, s1)
      \<and> csv_filenames cfg stamp = (summary_filename, details_filename)
      \<and> write_csv cl (fst s1) summary_filename = (Inr u, p1)
      \<and> write_csv cl p1 details_filename = (Inr u', p2)"
  then have "EXPORT_CSV cfg" by (simp add: EXPORT_CSV_of_def)
  with h show "report cl cfg S E stamp s
        = (Returned (),
           (p2, snd s1 @ summary_output (fst acc)
                  @ [WriteCsv summary_filename, WriteCsv details_filename,
                     PrintCsvCreated summary_filename details_filename]))"
    by (intro report_exports [where u = u and u' = u' and ?p1.0 = p1]) simp_all
next
  assume h: "EXPORT_CSV cfg = EXPORT_CSV_of env \<and> env ''EXPORT_CSV'' = Some v \<and> v \<noteq> []
      \<and> main_execution cl cfg S E s = (Returned acc, s1)
      \<and> csv_filenames cfg stamp = (summary_filename, details_filename)
      \<and> write_csv cl (fst s1) summary_filename = (Inl x, p1)"
  then have "EXPORT_CSV cfg" by (simp add: EXPORT_CSV_of_def)
  with h show "report cl cfg S E stamp s
        = (Raised x, (p1, snd s1 @ summary_output (fst acc) @ [WriteCsv summary_filename]))"
    by (intro report_first_file_fails [where details_filename = details_filename]) simp_all
next
  assume h: "EXPORT_CSV cfg = EXPORT_CSV_of env
      \<and> (env ''EXPORT_CSV'' = None \<or> env ''EXPORT_CSV'' = Some [])
      \<and> report cl cfg S E stamp s = (r, s')"
  then have "\<not> EXPORT_CSV cfg" by (auto simp: EXPORT_CSV_of_def)
  moreover from h have "report cl cfg S E stamp s = (r, s')" by simp
  ultimately show "files_written (snd s') = files_written (snd s)"
    by (rule report_without_export)
next
  assume h: "main_execution cl cfg S E s = (Exit n, s1)"
  from report_exits [OF h]
  show "report cl cfg S E stamp s = (Exit n, s1)"
    and "files_written (snd s1) = files_written (snd s)"
    by simp_all
next
  assume h: "main_execution cl cfg S E s = (Raised x, s1)"
  from report_raises [OF h]
  show "report cl cfg S E stamp s = (Raised x, s1)"
    and "files_written (snd s1) = files_written (snd s)"
    by simp_all
next
  assume "cd_flavorAsset_list cl p (me_id e) = (Inr fl, p') \<and> find fa_isOriginal fl = Some src"
  then have l: "cd_flavorAsset_list cl p (me_id e) = (Inr fl, p')"
    and f: "find fa_isOriginal fl = Some src"
    by simp_all
  show "list_ex is_cd_get_url
         (snd (snd (enrich cl (cfg \<lparr> FLAVOR_SIZE := answer_of a,
                                      FLAVOR_SOURCE_NAME := answer_of b \<rparr>) e (p, []))))
       \<longleftrightarrow> py_strip a \<noteq> [] \<and> py_strip b \<noteq> []"
    by (rule enrich_get_url_iff [OF l f])
qed

theorem truthiness_of_configuration_witness:
  "report one_page_client
     (day_config \<lparr> EXPORT_CSV := EXPORT_CSV_of [''EXPORT_CSV'' \<mapsto> ''False''] \<rparr>)
     738900 738900 ''20240115_120000'' ((), [])
   = (Returned (),
      ((), day_trace @ summary_output sample_summary
             @ [WriteCsv ''video_summary_123_noTag_noCategory_noOwner_day_20240115_120000.csv'',
                WriteCsv ''video_details_123_noTag_noCategory_noOwner_day_20240115_120000.csv'',
                PrintCsvCreated
                  ''video_summary_123_noTag_noCategory_noOwner_day_20240115_120000.csv''
                  ''video_details_123_noTag_noCategory_noOwner_day_20240115_120000.csv'']))
 \<and> fst (report unwritable_client
          (day_config \<lparr> EXPORT_CSV := EXPORT_CSV_of [''EXPORT_CSV'' \<mapsto> ''0''] \<rparr>)
          738900 738900 ''20240115_120000'' ((), []))
   = Raised (OtherException ''PermissionError'')
 \<and> files_written
      (snd (snd (report one_page_client (day_config \<lparr> EXPORT_CSV := EXPORT_CSV_of Map.empty \<rparr>)
                   738900 738900 ''20240115_120000'' ((), [])))) = []
 \<and> report refusing_client (day_config \<lparr> EXPORT_CSV := True \<rparr>)
      738900 738900 ''20240115_120000'' ((), [])
   = (Exit 1, ((), [CallSessionStart, PrintProcessingChunk 738900 738900,
                    CallMediaList (1705276800, 1705363199) 1, PrintQueryRefused,
                    PrintTryFinerInterval]))
 \<and> report one_page_client (plain_config \<lparr> EXPORT_CSV := True, RESTRICTION_INTERVAL := 5 \<rparr>)
      738900 738900 ''20240115_120000'' ((), [])
   = (Raised ValueError, ((), [CallSessionStart]))
 \<and> list_ex is_cd_get_url
       (snd (snd (enrich single_entry_client
                    (plain_config \<lparr> FLAVOR_SIZE := answer_of ''no'',
                                    FLAVOR_SOURCE_NAME := answer_of ''y'' \<rparr>)
                    sample_entry ((), []))))"
proof -
  let ?sf = "''video_summary_123_noTag_noCategory_noOwner_day_20240115_120000.csv''"
  let ?df = "''video_details_123_noTag_noCategory_noOwner_day_20240115_120000.csv''"
  let ?stamp = "''20240115_120000''"
  let ?on = "day_config \<lparr> EXPORT_CSV := EXPORT_CSV_of [''EXPORT_CSV'' \<mapsto> ''False''] \<rparr>"
  let ?onz = "day_config \<lparr> EXPORT_CSV := EXPORT_CSV_of [''EXPORT_CSV'' \<mapsto> ''0''] \<rparr>"
  let ?off = "day_config \<lparr> EXPORT_CSV := EXPORT_CSV_of Map.empty \<rparr>"
  let ?src = "\<lparr> fa_id = ''0_src'', fa_size = 2048, fa_isOriginal = True \<rparr>"
  let ?fl = "[\<lparr> fa_id = ''0_web'', fa_size = 512, fa_isOriginal = False \<rparr>, ?src]"
  note t = truthiness_of_configuration
  have run_on: "main_execution one_page_client ?on 738900 738900 ((), [])
                = (Returned (sample_summary, [sample_row]), ((), day_trace))"
    by (rule one_day_run) (simp_all add: day_config_def plain_config_def)
  have run_off: "main_execution one_page_client ?off 738900 738900 ((), [])
                = (Returned (sample_summary, [sample_row]), ((), day_trace))"
    by (rule one_day_run) (simp_all add: day_config_def plain_config_def)
  have run_unwritable: "main_execution unwritable_client ?onz 738900 738900 ((), [])
           = (Returned ([\<lparr> sr_range = (738900, 738900), sr_entry_count = 0,
                            sr_duration_sec = 0, sr_flavor_size_kb = 0 \<rparr>], []),
              ((), [CallSessionStart, PrintProcessingChunk 738900 738900,
                    CallMediaList (1705276800, 1705363199) 1]))"
    by (rule empty_run) (simp add: day_config_def)
  have run_refused: "main_execution refusing_client (day_config \<lparr> EXPORT_CSV := True \<rparr>)
             738900 738900 ((), [])
           = (Exit 1, ((), [CallSessionStart, PrintProcessingChunk 738900 738900,
                            CallMediaList (1705276800, 1705363199) 1, PrintQueryRefused,
                            PrintTryFinerInterval]))"
    by (rule refused_run) (simp add: day_config_def)
  have run_invalid: "main_execution one_page_client
             (plain_config \<lparr> EXPORT_CSV := True, RESTRICTION_INTERVAL := 5 \<rparr>)
             738900 738900 ((), [])
           = (Raised ValueError, ((), [CallSessionStart]))"
    by (rule invalid_interval_run) simp
  have w1: "write_csv one_page_client (fst ((), day_trace)) ?sf = (Inr (), ())"
    and w2: "write_csv one_page_client () ?df = (Inr (), ())"
    by (simp_all add: one_page_client_def)
  have w3: "write_csv unwritable_client
              (fst ((), [CallSessionStart, PrintProcessingChunk 738900 738900,
                         CallMediaList (1705276800, 1705363199) 1])) ?sf
            = (Inl (OtherException ''PermissionError''), ())"
    by (simp add: unwritable_client_def)
  have g1: "report one_page_client ?on 738900 738900 ?stamp ((), [])
     = (Returned (),
        ((), snd ((), day_trace) @ summary_output (fst (sample_summary, [sample_row]))
               @ [WriteCsv ?sf, WriteCsv ?df, PrintCsvCreated ?sf ?df]))"
    by (rule t [where cl = one_page_client and cfg = ?on
                  and env = "[''EXPORT_CSV'' \<mapsto> ''False'']" and v = "''False''"
                  and S = 738900 and E = 738900 and s = "((), [])"
                  and acc = "(sample_summary, [sample_row])" and ?s1.0 = "((), day_trace)"
                  and stamp = ?stamp and summary_filename = ?sf and details_filename = ?df
                  and u = "()" and ?p1.0 = "()" and u' = "()" and ?p2.0 = "()",
                THEN conjunct2, THEN conjunct2, THEN conjunct2, THEN conjunct2,
                THEN conjunct2, THEN conjunct2, THEN conjunct1, THEN mp])
       (simp add: run_on day_filenames w1 [simplified] w2)
  have g2: "report unwritable_client ?onz 738900 738900 ?stamp ((), [])
     = (Raised (OtherException ''PermissionError''),
        ((), snd ((), [CallSessionStart, PrintProcessingChunk 738900 738900,
                       CallMediaList (1705276800, 1705363199) 1])
               @ summary_output (fst ([\<lparr> sr_range = (738900, 738900), sr_entry_count = 0,
                                          sr_duration_sec = 0, sr_flavor_size_kb = 0 \<rparr>],
                                        [] :: detail_row list))
               @ [WriteCsv ?sf]))"
    by (rule t [where cl = unwritable_client and cfg = ?onz
                  and env = "[''EXPORT_CSV'' \<mapsto> ''0'']" and v = "''0''"
                  and S = 738900 and E = 738900 and s = "((), [])"
                  and stamp = ?stamp and summary_filename = ?sf and details_filename = ?df
                  and ?p1.0 = "()" and x = "OtherException ''PermissionError''"
                  and acc = "([\<lparr> sr_range = (738900, 738900), sr_entry_count = 0,
                                 sr_duration_sec = 0, sr_flavor_size_kb = 0 \<rparr>], [])"
                  and ?s1.0 = "((), [CallSessionStart, PrintProcessingChunk 738900 738900,
                                     CallMediaList (1705276800, 1705363199) 1])",
                THEN conjunct2, THEN conjunct2, THEN conjunct2, THEN conjunct2,
                THEN conjunct2, THEN conjunct2, THEN conjunct2, THEN conjunct1, THEN mp])
       (simp add: run_unwritable day_filenames w3 [simplified])
  have g3: "files_written
      (snd (snd (report one_page_client ?off 738900 738900 ?stamp ((), []))))
     = files_written (snd ((), []))"
    by (rule t [where cl = one_page_client and cfg = ?off and env = Map.empty
                  and S = 738900 and E = 738900 and s = "((), [])" and stamp = ?stamp
                  and r = "fst (report one_page_client ?off 738900 738900 ?stamp ((), []))",
                THEN conjunct2, THEN conjunct2, THEN conjunct2, THEN conjunct2,
                THEN conjunct2, THEN conjunct2, THEN conjunct2, THEN conjunct2,
                THEN conjunct1, THEN mp])
       simp
  have g4: "report refusing_client (day_config \<lparr> EXPORT_CSV := True \<rparr>)
              738900 738900 ?stamp ((), [])
            = (Exit 1, ((), [CallSessionStart, PrintProcessingChunk 738900 738900,
                            CallMediaList (1705276800, 1705363199) 1, PrintQueryRefused,
                            PrintTryFinerInterval]))"
    by (rule t [where stamp = ?stamp,
                THEN conjunct2, THEN conjunct2, THEN conjunct2, THEN conjunct2,
                THEN conjunct2, THEN conjunct2, THEN conjunct2, THEN conjunct2,
                THEN conjunct2, THEN conjunct1, THEN mp, OF run_refused, THEN conjunct1])
  have g5: "report one_page_client
              (plain_config \<lparr> EXPORT_CSV := True, RESTRICTION_INTERVAL := 5 \<rparr>)
              738900 738900 ?stamp ((), [])
            = (Raised ValueError, ((), [CallSessionStart]))"
    by (rule t [where stamp = ?stamp,
                THEN conjunct2, THEN conjunct2, THEN conjunct2, THEN conjunct2,
                THEN conjunct2, THEN conjunct2, THEN conjunct2, THEN conjunct2,
                THEN conjunct2, THEN conjunct2, THEN conjunct1, THEN mp, OF run_invalid,
                THEN conjunct1])
  have l: "cd_flavorAsset_list single_entry_client () (me_id sample_entry) = (Inr ?fl, ())"
    by (simp add: single_entry_client_def)
  have f: "find fa_isOriginal ?fl = Some ?src" by simp
  have n: "py_strip ''no'' \<noteq> []" by code_simp
  have y: "py_strip ''y'' \<noteq> []" by code_simp
  have g6: "list_ex is_cd_get_url
         (snd (snd (enrich single_entry_client
                      (plain_config \<lparr> FLAVOR_SIZE := answer_of ''no'',
                                      FLAVOR_SOURCE_NAME := answer_of ''y'' \<rparr>)
                      sample_entry ((), []))))"
    by (rule t [where cl = single_entry_client and p = "()" and e = sample_entry
                  and cfg = plain_config and a = "''no''" and b = "''y''",
                THEN conjunct2, THEN conjunct2, THEN conjunct2, THEN conjunct2,
                THEN conjunct2, THEN conjunct2, THEN conjunct2, THEN conjunct2,
                THEN conjunct2, THEN conjunct2, THEN conjunct2, THEN conjunct2,
                THEN conjunct1, THEN mp, OF conjI [OF l f], THEN iffD2, OF conjI [OF n y]])
  from g1 g2 g3 g4 g5 g6 show ?thesis by (simp add: files_written_def)
qed

end
